theory Spec2Isabelle
  imports Main
begin

section \<open>JavaScript values and strings\<close>

text \<open>
  Strings are lists of characters. Template literals interpolate a value that may be
  \<open>undefined\<close>; such a value prints as the word \<open>undefined\<close>.
  The double quote and the single quote are named, since the messages and the patterns of
  the scripts contain them.
\<close>

definition dq :: char where
  "dq = CHR 0x22"

definition sq :: char where
  "sq = CHR 0x27"

definition quoted :: "string \<Rightarrow> string" where
  "quoted s = dq # s @ [dq]"

text \<open>The \<open>value\<close> field of a Remote Config value object; \<open>None\<close> is \<open>undefined\<close>.\<close>

type_synonym rcValue = "string option"

definition showJs :: "rcValue \<Rightarrow> string" where
  "showJs v = (case v of None \<Rightarrow> ''undefined'' | Some s \<Rightarrow> s)"

text \<open>\<open>x || {}\<close> and \<open>x || []\<close>: an absent field reads as the empty object or array.\<close>

definition orEmpty :: "'a list option \<Rightarrow> 'a list" where
  "orEmpty x = (case x of None \<Rightarrow> [] | Some xs \<Rightarrow> xs)"

section \<open>The Remote Config template\<close>

text \<open>
  A JSON object is the association list of its own properties, in the order in which
  \<open>Object.entries\<close> lists them. Every object of the scripts is an ordinary one, so
  \<open>obj[key]\<close> finds an own property first and a member of \<open>Object.prototype\<close>
  otherwise: a key such as \<open>constructor\<close> or \<open>toString\<close> always reads as
  something, a function (for \<open>__proto__\<close>, the prototype object itself). These
  members are truthy, have no enumerable property of their own, and none of the fields
  \<open>defaultValue\<close>, \<open>conditionalValues\<close> and \<open>value\<close>.
\<close>

definition objectPrototypeKeys :: "string list" where
  "objectPrototypeKeys =
     [''constructor'', ''__defineGetter__'', ''__defineSetter__'', ''hasOwnProperty'',
      ''__lookupGetter__'', ''__lookupSetter__'', ''isPrototypeOf'', ''propertyIsEnumerable'',
      ''toString'', ''valueOf'', ''__proto__'', ''toLocaleString'']"

datatype 'a property = Own 'a | Inherited string | Absent

definition getProp :: "(string \<times> 'a) list \<Rightarrow> string \<Rightarrow> 'a property" where
  "getProp obj k =
     (case map_of obj k of
        Some v \<Rightarrow> Own v
      | None \<Rightarrow> if k \<in> set objectPrototypeKeys then Inherited k else Absent)"

text \<open>
  The own keys of an object are listed with the array indices first, in ascending order,
  and the other keys after them in the order of their creation. An array index is the
  decimal numeral, without a leading zero, of a number below \<open>2\<^sup>3\<^sup>2 - 1\<close>.
\<close>

definition isDecimalDigit :: "char \<Rightarrow> bool" where
  "isDecimalDigit c = (c \<in> set ''0123456789'')"

definition decimal :: "string \<Rightarrow> nat" where
  "decimal s = foldl (\<lambda>n c. 10 * n + (of_char c - 48)) 0 s"

definition arrayIndex :: "string \<Rightarrow> nat option" where
  "arrayIndex k =
     (if k \<noteq> [] \<and> list_all isDecimalDigit k \<and> (k = ''0'' \<or> hd k \<noteq> CHR ''0'') \<and>
         decimal k < 4294967295
      then Some (decimal k) else None)"

text \<open>A new own property takes its place in that order.\<close>

definition comesBefore :: "nat \<Rightarrow> string \<times> 'a \<Rightarrow> bool" where
  "comesBefore n entry = (case arrayIndex (fst entry) of None \<Rightarrow> False | Some m \<Rightarrow> m < n)"

definition insertProp :: "string \<Rightarrow> 'a \<Rightarrow> (string \<times> 'a) list \<Rightarrow> (string \<times> 'a) list" where
  "insertProp k v obj =
     (case arrayIndex k of
        None \<Rightarrow> obj @ [(k, v)]
      | Some n \<Rightarrow> takeWhile (comesBefore n) obj @ (k, v) # dropWhile (comesBefore n) obj)"

text \<open>
  The assignment \<open>obj[k] = v\<close> of an object \<open>v\<close>: an own property is overwritten
  in its place, a new one is created, except under the name \<open>__proto__\<close>, where the
  assignment reaches the accessor of \<open>Object.prototype\<close> and replaces the prototype
  of \<open>obj\<close> instead of creating a property.
\<close>

definition assignEntry :: "string \<Rightarrow> 'a \<Rightarrow> (string \<times> 'a) list \<Rightarrow> (string \<times> 'a) list" where
  "assignEntry k v obj =
     (if map_of obj k \<noteq> None then map (\<lambda>(k', v'). if k' = k then (k', v) else (k', v')) obj
      else if k = ''__proto__'' then obj
      else insertProp k v obj)"

text \<open>
  A parameter, a value object or a condition that is present is an object, hence truthy.
  Every field that the scripts read through \<open>||\<close> or \<open>?.\<close> is optional.
\<close>

record rcParameter =
  defaultValue :: "rcValue option"
  paramConditionalValues :: "(string \<times> rcValue) list option"

record rcCondition =
  name :: string
  expression :: string

record rcConfig =
  parameters :: "(string \<times> rcParameter) list option"
  conditions :: "rcCondition list option"
  conditionalValues :: "(string \<times> (string \<times> rcValue) list) list option"

text \<open>\<open>param.defaultValue?.value\<close>\<close>

definition defaultOf :: "rcParameter \<Rightarrow> rcValue" where
  "defaultOf p = (case defaultValue p of None \<Rightarrow> None | Some v \<Rightarrow> v)"

text \<open>
  A parameter read as \<open>params[key]\<close>, when the result is truthy: the own parameter, or
  a member of \<open>Object.prototype\<close>, on which \<open>defaultValue\<close> and
  \<open>conditionalValues\<close> are \<open>undefined\<close>.
\<close>

definition memberParameter :: rcParameter where
  "memberParameter = \<lparr> defaultValue = None, paramConditionalValues = None \<rparr>"

definition truthyParameter :: "rcParameter property \<Rightarrow> rcParameter option" where
  "truthyParameter x =
     (case x of Own p \<Rightarrow> Some p | Inherited m \<Rightarrow> Some memberParameter | Absent \<Rightarrow> None)"

text \<open>
  \<open>conditionalValues[key] || {}\<close>, as the list \<open>Object.keys\<close> runs over: a member
  of \<open>Object.prototype\<close> has no enumerable key.
\<close>

definition ownEntries :: "(string \<times> 'a) list property \<Rightarrow> (string \<times> 'a) list" where
  "ownEntries x = (case x of Own entries \<Rightarrow> entries | Inherited m \<Rightarrow> [] | Absent \<Rightarrow> [])"

section \<open>The standalone validator: \<open>validate\<close>\<close>

record validation =
  errors :: "string list"
  warnings :: "string list"

definition msgMissingParam :: "string \<Rightarrow> string" where
  "msgMissingParam paramKey = ''Parameter '' @ quoted paramKey @ '' is missing in Remote Config''"

definition msgWrongDefault :: "string \<Rightarrow> rcValue \<Rightarrow> rcValue \<Rightarrow> string" where
  "msgWrongDefault paramKey localDefault remoteDefault =
     ''Parameter '' @ quoted paramKey @ '' has wrong default: expected '' @
     quoted (showJs localDefault) @ '', got '' @ quoted (showJs remoteDefault)"

definition msgMissingConditional :: "string \<Rightarrow> string \<Rightarrow> string" where
  "msgMissingConditional paramKey conditionName =
     ''Parameter '' @ quoted paramKey @ '' is missing condition '' @ quoted conditionName"

definition msgWrongConditional :: "string \<Rightarrow> string \<Rightarrow> string" where
  "msgWrongConditional paramKey conditionName =
     ''Parameter '' @ quoted paramKey @ '' condition '' @ quoted conditionName @
     '' has wrong value''"

definition msgWrongConditionalLong :: "string \<Rightarrow> string \<Rightarrow> rcValue \<Rightarrow> rcValue \<Rightarrow> string" where
  "msgWrongConditionalLong paramKey conditionName lv rv =
     msgWrongConditional paramKey conditionName @ '': expected '' @ quoted (showJs lv) @
     '', got '' @ quoted (showJs rv)"

definition msgMissingCondition :: "string \<Rightarrow> string" where
  "msgMissingCondition n = ''Condition '' @ quoted n @ '' is missing in Remote Config''"

definition msgDifferentExpression :: "string \<Rightarrow> string" where
  "msgDifferentExpression n = ''Condition '' @ quoted n @ '' has different expression''"

definition msgExtraParam :: "string \<Rightarrow> string" where
  "msgExtraParam paramKey =
     ''Remote Config has extra parameter '' @ quoted paramKey @ '' not in local config''"

text \<open>
  The inner loop over \<open>Object.keys(localConditionals)\<close>: one pass over the entries of
  the local conditional values of a parameter, against the remote parameter's own.
\<close>

fun conditionalErrors ::
  "string \<Rightarrow> (string \<times> rcValue) list \<Rightarrow> (string \<times> rcValue) list \<Rightarrow> string list" where
  "conditionalErrors paramKey remoteConditionals [] = []"
| "conditionalErrors paramKey remoteConditionals ((conditionName, lv) # rest) =
     (case getProp remoteConditionals conditionName of
        Absent \<Rightarrow> [msgMissingConditional paramKey conditionName]
      | Own rv \<Rightarrow>
          if lv \<noteq> rv then [msgWrongConditionalLong paramKey conditionName lv rv] else []
      | Inherited m \<Rightarrow>
          if lv \<noteq> None then [msgWrongConditionalLong paramKey conditionName lv None] else [])
     @ conditionalErrors paramKey remoteConditionals rest"

text \<open>The body of the loop over \<open>Object.entries(localParams)\<close>, for one entry.\<close>

definition paramErrors ::
  "(string \<times> rcParameter) list \<Rightarrow> (string \<times> (string \<times> rcValue) list) list \<Rightarrow>
   string \<times> rcParameter \<Rightarrow> string list" where
  "paramErrors remoteParams localConditionalValues entry =
     (case entry of (paramKey, paramConfig) \<Rightarrow>
        (case truthyParameter (getProp remoteParams paramKey) of
           None \<Rightarrow> [msgMissingParam paramKey]
         | Some remoteParam \<Rightarrow>
             (let localDefault = defaultOf paramConfig;
                  remoteDefault = defaultOf remoteParam;
                  localConditionals = ownEntries (getProp localConditionalValues paramKey);
                  remoteConditionals = orEmpty (paramConditionalValues remoteParam)
              in (if localDefault \<noteq> remoteDefault
                  then [msgWrongDefault paramKey localDefault remoteDefault] else [])
                 @ conditionalErrors paramKey remoteConditionals localConditionals)))"

text \<open>The body of the loop over the local conditions, for one condition.\<close>

definition conditionErrors :: "rcCondition list \<Rightarrow> rcCondition \<Rightarrow> string list" where
  "conditionErrors remoteConditions localCond =
     (case find (\<lambda>c. name c = name localCond) remoteConditions of
        None \<Rightarrow> [msgMissingCondition (name localCond)]
      | Some remoteCond \<Rightarrow>
          if expression localCond \<noteq> expression remoteCond
          then [msgDifferentExpression (name localCond)] else [])"

definition extraWarnings ::
  "(string \<times> rcParameter) list \<Rightarrow> (string \<times> rcParameter) list \<Rightarrow> string list" where
  "extraWarnings localParams remoteParams =
     map msgExtraParam (filter (\<lambda>paramKey. getProp localParams paramKey = Absent) (map fst remoteParams))"

definition validate :: "rcConfig \<Rightarrow> rcConfig \<Rightarrow> validation" where
  "validate localConfig remoteConfig =
     (let localParams = orEmpty (parameters localConfig);
          remoteParams = orEmpty (parameters remoteConfig);
          localConditions = orEmpty (conditions localConfig);
          remoteConditions = orEmpty (conditions remoteConfig);
          localConditionalValues = orEmpty (conditionalValues localConfig)
      in \<lparr> errors =
             concat (map (paramErrors remoteParams localConditionalValues) localParams)
             @ concat (map (conditionErrors remoteConditions) localConditions),
           warnings = extraWarnings localParams remoteParams \<rparr>)"

section \<open>The deploy script's copy of the diff\<close>

fun conditionalErrorsDeploy ::
  "string \<Rightarrow> (string \<times> rcValue) list \<Rightarrow> (string \<times> rcValue) list \<Rightarrow> string list" where
  "conditionalErrorsDeploy paramKey remoteConditionals [] = []"
| "conditionalErrorsDeploy paramKey remoteConditionals ((conditionName, lv) # rest) =
     (case getProp remoteConditionals conditionName of
        Absent \<Rightarrow> [msgMissingConditional paramKey conditionName]
      | Own rv \<Rightarrow> if lv \<noteq> rv then [msgWrongConditional paramKey conditionName] else []
      | Inherited m \<Rightarrow> if lv \<noteq> None then [msgWrongConditional paramKey conditionName] else [])
     @ conditionalErrorsDeploy paramKey remoteConditionals rest"

definition paramErrorsDeploy ::
  "(string \<times> rcParameter) list \<Rightarrow> (string \<times> (string \<times> rcValue) list) list \<Rightarrow>
   string \<times> rcParameter \<Rightarrow> string list" where
  "paramErrorsDeploy remoteParams localConditionalValues entry =
     (case entry of (paramKey, paramConfig) \<Rightarrow>
        (case truthyParameter (getProp remoteParams paramKey) of
           None \<Rightarrow> [msgMissingParam paramKey]
         | Some remoteParam \<Rightarrow>
             (let localDefault = defaultOf paramConfig;
                  remoteDefault = defaultOf remoteParam;
                  localConditionals = ownEntries (getProp localConditionalValues paramKey);
                  remoteConditionals = orEmpty (paramConditionalValues remoteParam)
              in (if localDefault \<noteq> remoteDefault
                  then [msgWrongDefault paramKey localDefault remoteDefault] else [])
                 @ conditionalErrorsDeploy paramKey remoteConditionals localConditionals)))"

definition conditionErrorsDeploy :: "rcCondition list \<Rightarrow> rcCondition \<Rightarrow> string list" where
  "conditionErrorsDeploy remoteConditions localCond =
     (case find (\<lambda>c. name c = name localCond) remoteConditions of
        None \<Rightarrow> [msgMissingCondition (name localCond)]
      | Some remoteCond \<Rightarrow> [])"

text \<open>
  \<open>validateRemoteConfig\<close> of the deploy script, after both configurations are read:
  the comparison itself.
\<close>

definition diffRemoteConfig :: "rcConfig \<Rightarrow> rcConfig \<Rightarrow> string list" where
  "diffRemoteConfig localConfig remoteConfig =
     (let localParams = orEmpty (parameters localConfig);
          remoteParams = orEmpty (parameters remoteConfig);
          localConditions = orEmpty (conditions localConfig);
          remoteConditions = orEmpty (conditions remoteConfig);
          localConditionalValues = orEmpty (conditionalValues localConfig)
      in concat (map (paramErrorsDeploy remoteParams localConditionalValues) localParams)
         @ concat (map (conditionErrorsDeploy remoteConditions) localConditions))"

section \<open>What it means for the live template to agree with the local file\<close>

text \<open>
  The agreement the validator is meant to decide, stated on the data alone. A local
  conditional value agrees when the remote parameter holds a value object under the same
  condition name with the same \<open>value\<close>; a local parameter agrees when the remote
  template has it, with the same default and agreeing conditional values; a local
  condition agrees when the remote condition of that name (the first one, which is the only
  one when names are unique, as they are in a Firebase template) has the same expression.
\<close>

definition conditionalsInSync ::
  "(string \<times> rcValue) list \<Rightarrow> (string \<times> rcValue) list \<Rightarrow> bool" where
  "conditionalsInSync remoteConditionals localConditionals =
     (\<forall>(conditionName, lv) \<in> set localConditionals.
        map_of remoteConditionals conditionName = Some lv)"

definition paramInSync :: "rcConfig \<Rightarrow> rcConfig \<Rightarrow> string \<times> rcParameter \<Rightarrow> bool" where
  "paramInSync localConfig remoteConfig entry =
     (case map_of (orEmpty (parameters remoteConfig)) (fst entry) of
        None \<Rightarrow> False
      | Some remoteParam \<Rightarrow>
          defaultOf (snd entry) = defaultOf remoteParam \<and>
          conditionalsInSync (orEmpty (paramConditionalValues remoteParam))
            (orEmpty (map_of (orEmpty (conditionalValues localConfig)) (fst entry))))"

definition conditionInSync :: "rcConfig \<Rightarrow> rcCondition \<Rightarrow> bool" where
  "conditionInSync remoteConfig localCond =
     (case find (\<lambda>c. name c = name localCond) (orEmpty (conditions remoteConfig)) of
        None \<Rightarrow> False
      | Some remoteCond \<Rightarrow> expression remoteCond = expression localCond)"

definition configInSync :: "rcConfig \<Rightarrow> rcConfig \<Rightarrow> bool" where
  "configInSync localConfig remoteConfig =
     ((\<forall>entry \<in> set (orEmpty (parameters localConfig)).
         paramInSync localConfig remoteConfig entry) \<and>
      (\<forall>localCond \<in> set (orEmpty (conditions localConfig)).
         conditionInSync remoteConfig localCond))"

text \<open>The remote template without the parameters that the local file does not list.\<close>

definition dropExtraParams :: "rcConfig \<Rightarrow> rcConfig \<Rightarrow> rcConfig" where
  "dropExtraParams localConfig remoteConfig =
     remoteConfig \<lparr> parameters :=
       Some (filter (\<lambda>(k, p). map_of (orEmpty (parameters localConfig)) k \<noteq> None)
              (orEmpty (parameters remoteConfig))) \<rparr>"

subsection \<open>Example templates\<close>

definition exampleLocal :: rcConfig where
  "exampleLocal =
     \<lparr> parameters = Some [(''navigation_banner'',
         \<lparr> defaultValue = Some (Some ''control''), paramConditionalValues = None \<rparr>)],
       conditions = Some [\<lparr> name = ''beta_users'', expression = ''percent <= 10'' \<rparr>],
       conditionalValues = Some [(''navigation_banner'', [(''beta_users'', Some ''beta'')])] \<rparr>"

definition exampleRemote :: rcConfig where
  "exampleRemote =
     \<lparr> parameters = Some
         [(''navigation_banner'',
             \<lparr> defaultValue = Some (Some ''control''),
               paramConditionalValues = Some [(''beta_users'', Some ''beta'')] \<rparr>),
          (''legacy_flag'',
             \<lparr> defaultValue = Some (Some ''off''), paramConditionalValues = None \<rparr>)],
       conditions = Some [\<lparr> name = ''beta_users'', expression = ''percent <= 10'' \<rparr>],
       conditionalValues = None \<rparr>"

text \<open>The same live template after the expression of its condition was edited.\<close>

definition driftedRemote :: rcConfig where
  "driftedRemote =
     exampleRemote \<lparr> conditions :=
       Some [\<lparr> name = ''beta_users'', expression = ''percent <= 50'' \<rparr>] \<rparr>"

text \<open>
  A local file whose only parameter is named \<open>constructor\<close> and has no default value,
  the same file with an ordinary name, and a live template without parameters.
\<close>

definition inheritedNameLocal :: rcConfig where
  "inheritedNameLocal =
     \<lparr> parameters = Some [(''constructor'',
         \<lparr> defaultValue = None, paramConditionalValues = None \<rparr>)],
       conditions = None, conditionalValues = None \<rparr>"

definition ordinaryNameLocal :: rcConfig where
  "ordinaryNameLocal =
     \<lparr> parameters = Some [(''new_editor'',
         \<lparr> defaultValue = None, paramConditionalValues = None \<rparr>)],
       conditions = None, conditionalValues = None \<rparr>"

definition emptyRemote :: rcConfig where
  "emptyRemote = \<lparr> parameters = Some [], conditions = None, conditionalValues = None \<rparr>"

text \<open>The names that \<open>obj[key]\<close> finds on any object are set apart.\<close>

definition ordinaryName :: "string \<Rightarrow> bool" where
  "ordinaryName k = (k \<notin> set objectPrototypeKeys)"

definition ordinaryNames :: "rcConfig \<Rightarrow> bool" where
  "ordinaryNames localConfig =
     ((\<forall>k \<in> fst ` set (orEmpty (parameters localConfig)). ordinaryName k) \<and>
      (\<forall>(k, conds) \<in> set (orEmpty (conditionalValues localConfig)).
         \<forall>conditionName \<in> fst ` set conds. ordinaryName conditionName))"

section \<open>The auth context: \<open>useAuth\<close> and \<open>AuthProvider\<close>\<close>

text \<open>
  A nullable JavaScript reference is an \<open>option\<close>: \<open>None\<close> is \<open>null\<close>. The
  functions of the context value are the Firebase calls they forward to, on the
  \<open>auth\<close> handle of the provider.
\<close>

datatype 'auth firebaseCall =
    SignInWithEmailAndPassword 'auth string string
  | CreateUserWithEmailAndPassword 'auth string string
  | SignInWithPopupGoogle 'auth
  | SignOut 'auth

record ('auth, 'user) authValue =
  user :: "'user option"
  loading :: bool
  login :: "string \<Rightarrow> string \<Rightarrow> 'auth firebaseCall"
  signup :: "string \<Rightarrow> string \<Rightarrow> 'auth firebaseCall"
  loginWithGoogle :: "'auth firebaseCall"
  logout :: "'auth firebaseCall"

text \<open>
  The \<open>value\<close> object that \<open>AuthProvider\<close> hands to \<open>AuthContext.Provider\<close>, from
  its \<open>auth\<close> property and its two pieces of state.
\<close>

definition AuthProvider :: "'auth \<Rightarrow> 'user option \<Rightarrow> bool \<Rightarrow> ('auth, 'user) authValue" where
  "AuthProvider auth userState loadingState =
     \<lparr> user = userState,
       loading = loadingState,
       login = (\<lambda>email password. SignInWithEmailAndPassword auth email password),
       signup = (\<lambda>email password. CreateUserWithEmailAndPassword auth email password),
       loginWithGoogle = SignInWithPopupGoogle auth,
       logout = SignOut auth \<rparr>"

text \<open>
  \<open>useContext(AuthContext)\<close>: the value of the nearest enclosing provider, and the
  default of \<open>createContext(null)\<close> when there is none. The enclosing providers are
  listed innermost first, each by its \<open>auth\<close> property and its state.
\<close>

fun useContext :: "('auth \<times> 'user option \<times> bool) list \<Rightarrow> ('auth, 'user) authValue option" where
  "useContext [] = None"
| "useContext ((auth, userState, loadingState) # outer) =
     Some (AuthProvider auth userState loadingState)"

datatype jsError = Error string

definition useAuth ::
  "('auth \<times> 'user option \<times> bool) list \<Rightarrow> jsError + ('auth, 'user) authValue option" where
  "useAuth providers =
     (let ctx = useContext providers
      in if ctx = None then Inl (Error ''useAuth must be used within an AuthProvider'')
         else Inr ctx)"

section \<open>Fetching the feature flags: \<open>fetchFeatureFlags\<close>\<close>

text \<open>
  The registry \<open>FEATURE_FLAGS\<close> is imported from a module that is not among the
  sources; the functions take \<open>Object.values(FEATURE_FLAGS)\<close> as a parameter.
  The Remote Config SDK is a parameter as well, and any behaviour of it is allowed: the
  instance may fail to initialise, \<open>fetchAndActivate\<close> may reject, and \<open>getString\<close>
  may return any string or throw, each depending on the \<open>defaultConfig\<close> the function
  has installed. The default of a flag is a string, as the values of the flags are.
\<close>

record featureFlag =
  key :: string
  default :: string

record remoteConfigSdk =
  instanceOk :: bool
  activateOk :: "(string \<rightharpoonup> string) \<Rightarrow> bool"
  getString :: "(string \<rightharpoonup> string) \<Rightarrow> string \<Rightarrow> string option"

text \<open>
  The objects that the function builds are maps from the names of their own properties.
  The assignment \<open>obj[k] = v\<close> of a string creates or overwrites the own property
  \<open>k\<close>, with one exception: on an object without an own property \<open>__proto__\<close>
  the assignment to that name reaches the accessor of \<open>Object.prototype\<close>, which
  ignores a value that is not an object, and no property is created.
\<close>

definition assignProp :: "string \<Rightarrow> string \<Rightarrow> (string \<rightharpoonup> string) \<Rightarrow> (string \<rightharpoonup> string)" where
  "assignProp k v obj = (if k = ''__proto__'' \<and> obj k = None then obj else obj(k \<mapsto> v))"

text \<open>The loop \<open>for (const flag of flags) obj[flag.key] = flag.default\<close>.\<close>

fun defaultsOf :: "featureFlag list \<Rightarrow> (string \<rightharpoonup> string) \<Rightarrow> (string \<rightharpoonup> string)" where
  "defaultsOf [] obj = obj"
| "defaultsOf (flag # rest) obj = defaultsOf rest (assignProp (key flag) (default flag) obj)"

text \<open>
  The loop \<open>for (const flag of flags) flags[flag.key] = getString(rc, flag.key)\<close>; a
  \<open>getString\<close> that throws ends it.
\<close>

fun readFlags ::
  "(string \<Rightarrow> string option) \<Rightarrow> featureFlag list \<Rightarrow> (string \<rightharpoonup> string) \<Rightarrow>
   jsError + (string \<rightharpoonup> string)" where
  "readFlags gs [] obj = Inr obj"
| "readFlags gs (flag # rest) obj =
     (case gs (key flag) of
        None \<Rightarrow> Inl (Error ''getString'')
      | Some v \<Rightarrow> readFlags gs rest (assignProp (key flag) v obj))"

text \<open>The body of the \<open>try\<close> block.\<close>

definition tryFetchFlags ::
  "remoteConfigSdk \<Rightarrow> featureFlag list \<Rightarrow> jsError + (string \<rightharpoonup> string)" where
  "tryFetchFlags sdk flags =
     (if \<not> instanceOk sdk then Inl (Error ''getRemoteConfigInstance'')
      else let defaults = defaultsOf flags Map.empty
           in if \<not> activateOk sdk defaults then Inl (Error ''fetchAndActivate'')
              else readFlags (getString sdk defaults) flags Map.empty)"

definition fetchFeatureFlags ::
  "remoteConfigSdk \<Rightarrow> featureFlag list \<Rightarrow> jsError + (string \<rightharpoonup> string)" where
  "fetchFeatureFlags sdk flags =
     (case tryFetchFlags sdk flags of
        Inr obj \<Rightarrow> Inr obj
      | Inl error \<Rightarrow> Inr (defaultsOf flags Map.empty))"

text \<open>Some step of the fetch fails.\<close>

definition fetchFails :: "remoteConfigSdk \<Rightarrow> featureFlag list \<Rightarrow> bool" where
  "fetchFails sdk flags =
     (\<not> instanceOk sdk \<or>
      \<not> activateOk sdk (defaultsOf flags Map.empty) \<or>
      (\<exists>flag \<in> set flags. getString sdk (defaultsOf flags Map.empty) (key flag) = None))"

definition exampleFlags :: "featureFlag list" where
  "exampleFlags =
     [\<lparr> key = ''navigation_banner'', default = ''control'' \<rparr>,
      \<lparr> key = ''new_editor'', default = ''off'' \<rparr>]"

definition offlineSdk :: remoteConfigSdk where
  "offlineSdk =
     \<lparr> instanceOk = True, activateOk = (\<lambda>defaults. False),
       getString = (\<lambda>defaults k. Some (case defaults k of None \<Rightarrow> [] | Some d \<Rightarrow> d)) \<rparr>"

text \<open>A registry with a flag whose key is \<open>__proto__\<close>.\<close>

definition protoFlags :: "featureFlag list" where
  "protoFlags =
     [\<lparr> key = ''navigation_banner'', default = ''control'' \<rparr>,
      \<lparr> key = ''__proto__'', default = ''off'' \<rparr>]"

section \<open>The feature-flag hook: \<open>useFeatureFlag\<close>\<close>

text \<open>\<open>s.startsWith(p)\<close> and \<open>s.includes(p)\<close>.\<close>

definition startsWith :: "string \<Rightarrow> string \<Rightarrow> bool" where
  "startsWith s p = (take (length p) s = p)"

fun strIncludes :: "string \<Rightarrow> string \<Rightarrow> bool" where
  "strIncludes [] p = (p = [])"
| "strIncludes (c # cs) p = (startsWith (c # cs) p \<or> strIncludes cs p)"

text \<open>
  What \<open>obj[key]\<close> reads on an object of flags: the string of an own property, or
  the member of \<open>Object.prototype\<close> of that name, or \<open>undefined\<close>
  (\<open>None\<close>).
\<close>

datatype jsValue = Str string | ProtoMember string

definition readKey :: "(string \<rightharpoonup> string) \<Rightarrow> string \<Rightarrow> jsValue option" where
  "readKey obj k =
     (case obj k of
        Some s \<Rightarrow> Some (Str s)
      | None \<Rightarrow> if k \<in> set objectPrototypeKeys then Some (ProtoMember k) else None)"

text \<open>
  \<open>x || null\<close>: the empty string is falsy, a member of \<open>Object.prototype\<close> is
  truthy.
\<close>

definition orNull :: "jsValue option \<Rightarrow> jsValue option" where
  "orNull x =
     (case x of
        None \<Rightarrow> None
      | Some (Str s) \<Rightarrow> if s = [] then None else Some (Str s)
      | Some (ProtoMember m) \<Rightarrow> Some (ProtoMember m))"

text \<open>
  The browser state that the hook reads: the host name, the items of \<open>localStorage\<close>
  in key order, and the two globals \<open>window.__FLAG_TEST_MODE__\<close> and
  \<open>window.__FEATURE_FLAGS__\<close> (\<open>None\<close> when unset). A missing \<open>window\<close> is
  \<open>None\<close>.
\<close>

record window =
  hostname :: string
  localStorageItems :: "(string \<times> string) list"
  flagTestMode :: "(string \<rightharpoonup> string) option"
  featureFlagsCache :: "(string \<rightharpoonup> string) option"

definition getTestOverride :: "window option \<Rightarrow> (string \<rightharpoonup> string) option" where
  "getTestOverride w = (case w of None \<Rightarrow> None | Some win \<Rightarrow> flagTestMode win)"

definition isStaging :: "window option \<Rightarrow> bool" where
  "isStaging w = (case w of None \<Rightarrow> False | Some win \<Rightarrow> strIncludes (hostname win) ''staging'')"

definition getBetaFromStorage :: "window option \<Rightarrow> bool" where
  "getBetaFromStorage w =
     (case w of
        None \<Rightarrow> False
      | Some win \<Rightarrow>
          (case find (\<lambda>(k, v). startsWith k ''beta_enabled_'') (localStorageItems win) of
             None \<Rightarrow> False
           | Some (k, v) \<Rightarrow> v = ''true''))"

text \<open>
  The two \<open>useState\<close> cells are modelled by the value last handed to their setters
  (at first, the initial value). For a string and for \<open>null\<close> that value is the
  state. What React makes of a function handed to a setter is outside the hook; only a
  \<open>ProtoMember\<close> can be one.
\<close>

record flagState =
  flagValue :: "jsValue option"
  loading :: bool

text \<open>The initial state of the two \<open>useState\<close> cells.\<close>

definition initialFlagState :: "window option \<Rightarrow> string \<Rightarrow> flagState" where
  "initialFlagState w flagKey =
     \<lparr> flagValue =
         (if isStaging w \<and> flagKey = ''navigation_banner'' then Some (Str ''beta'')
          else if flagKey = ''navigation_banner'' \<and> getBetaFromStorage w then Some (Str ''beta'')
          else None),
       loading =
         (if isStaging w \<and> flagKey = ''navigation_banner'' then False
          else if flagKey = ''navigation_banner'' \<and> getBetaFromStorage w then False
          else True) \<rparr>"

text \<open>
  \<open>loadFlag\<close>, run to its end while the component is mounted: the state it sets and the
  window it leaves. Reading \<open>window.__FEATURE_FLAGS__\<close> without a window throws, and
  the \<open>catch\<close> block sets the value to \<open>null\<close>.
\<close>

definition loadFlag ::
  "window option \<Rightarrow> remoteConfigSdk \<Rightarrow> featureFlag list \<Rightarrow> string \<Rightarrow> flagState \<times> window option" where
  "loadFlag w sdk flags flagKey =
     (if isStaging w \<and> flagKey = ''navigation_banner''
      then (\<lparr> flagValue = Some (Str ''beta''), loading = False \<rparr>, w)
      else if flagKey = ''navigation_banner'' \<and> getBetaFromStorage w
      then (\<lparr> flagValue = Some (Str ''beta''), loading = False \<rparr>, w)
      else
        (case getTestOverride w of
           Some testOverride \<Rightarrow>
             (\<lparr> flagValue = orNull (readKey testOverride flagKey), loading = False \<rparr>, w)
         | None \<Rightarrow>
             (case w of
                None \<Rightarrow> (\<lparr> flagValue = None, loading = False \<rparr>, w)
              | Some win \<Rightarrow>
                  (case featureFlagsCache win of
                     Some cached \<Rightarrow>
                       (\<lparr> flagValue = orNull (readKey cached flagKey), loading = False \<rparr>, w)
                   | None \<Rightarrow>
                       (case fetchFeatureFlags sdk flags of
                          Inl error \<Rightarrow> (\<lparr> flagValue = None, loading = False \<rparr>, w)
                        | Inr fetched \<Rightarrow>
                            (\<lparr> flagValue = orNull (readKey fetched flagKey), loading = False \<rparr>,
                             Some (win \<lparr> featureFlagsCache := Some fetched \<rparr>)))))))"

text \<open>What the hook returns once \<open>loadFlag\<close> has run: the two cells.\<close>

definition useFeatureFlag ::
  "window option \<Rightarrow> remoteConfigSdk \<Rightarrow> featureFlag list \<Rightarrow> string \<Rightarrow> flagState" where
  "useFeatureFlag w sdk flags flagKey = fst (loadFlag w sdk flags flagKey)"

text \<open>
  The value delivered for a key, as a pass-through hook would resolve it: the entry of the
  test override when one is installed, and the entry of the fetched flags otherwise.
\<close>

definition deliveredValue ::
  "window option \<Rightarrow> remoteConfigSdk \<Rightarrow> featureFlag list \<Rightarrow> string \<Rightarrow> string option" where
  "deliveredValue w sdk flags flagKey =
     (case getTestOverride w of
        Some testOverride \<Rightarrow> testOverride flagKey
      | None \<Rightarrow>
          (case fetchFeatureFlags sdk flags of Inl error \<Rightarrow> None | Inr fetched \<Rightarrow> fetched flagKey))"

text \<open>
  The source the hook reads a key from when it does not short-cut: the test override, else
  the flags cached on the window by an earlier fetch, else the fetch.
\<close>

definition flagSource ::
  "window \<Rightarrow> remoteConfigSdk \<Rightarrow> featureFlag list \<Rightarrow> string \<Rightarrow> string option" where
  "flagSource win sdk flags flagKey =
     (case flagTestMode win of
        Some testOverride \<Rightarrow> testOverride flagKey
      | None \<Rightarrow>
          (case featureFlagsCache win of
             Some cached \<Rightarrow> cached flagKey
           | None \<Rightarrow>
               (case fetchFeatureFlags sdk flags of
                  Inl error \<Rightarrow> None
                | Inr fetched \<Rightarrow> fetched flagKey)))"

text \<open>
  A value passed through: the string of the source, with an absent or empty one as
  \<open>null\<close>.
\<close>

definition passedThrough :: "string option \<Rightarrow> jsValue option" where
  "passedThrough x = (case x of None \<Rightarrow> None | Some s \<Rightarrow> if s = [] then None else Some (Str s))"

definition stagingWindow :: window where
  "stagingWindow =
     \<lparr> hostname = ''argbase-staging.web.app'', localStorageItems = [],
       flagTestMode = None, featureFlagsCache = None \<rparr>"

definition productionWindow :: window where
  "productionWindow =
     \<lparr> hostname = ''argbase.org'', localStorageItems = [(''theme'', ''dark'')],
       flagTestMode = None, featureFlagsCache = None \<rparr>"

text \<open>An SDK whose fetch succeeds and delivers \<open>control\<close> and \<open>on\<close>.\<close>

definition onlineSdk :: remoteConfigSdk where
  "onlineSdk =
     \<lparr> instanceOk = True, activateOk = (\<lambda>defaults. True),
       getString = (\<lambda>defaults k. Some (if k = ''new_editor'' then ''on'' else ''control'')) \<rparr>"

section \<open>Scraping the failure log: \<open>parseErrors\<close>\<close>

text \<open>
  The three patterns carry the flags \<open>g\<close> and \<open>i\<close>. Under \<open>i\<close> (without
  \<open>u\<close>) two characters match when their canonical forms are equal; for the characters
  of the patterns, which are ASCII, that is equality after the ASCII letters are put in
  upper case. \<open>\d\<close> is an ASCII digit, \<open>.\<close> is any character but a line
  terminator, and \<open>[^'"]\<close> is any character but the two quotes.
\<close>

definition canon :: "char \<Rightarrow> char" where
  "canon c =
     (case map_of (zip ''abcdefghijklmnopqrstuvwxyz'' ''ABCDEFGHIJKLMNOPQRSTUVWXYZ'') c of
        None \<Rightarrow> c
      | Some u \<Rightarrow> u)"

definition isDigit :: "char \<Rightarrow> bool" where
  "isDigit c = (c \<in> set ''0123456789'')"

definition isQuote :: "char \<Rightarrow> bool" where
  "isQuote c = (c = sq \<or> c = dq)"

definition lineTerminator :: "char \<Rightarrow> bool" where
  "lineTerminator c = (c = CHR 0x0A \<or> c = CHR 0x0D)"

text \<open>The literal \<open>lit\<close> of a pattern matches at the start of \<open>s\<close>.\<close>

definition litAt :: "string \<Rightarrow> string \<Rightarrow> bool" where
  "litAt lit s = (map canon (take (length lit) s) = map canon lit)"

text \<open>
  A pattern, tried at the start of the rest of the input: the length of its match and the
  text of its capture group 1.
\<close>

type_synonym matcher = "string \<Rightarrow> (nat \<times> string) option"

text \<open>\<open>/Failed to compile/\<close>\<close>

definition buildAt :: matcher where
  "buildAt s = (if litAt ''Failed to compile'' s then Some (17, []) else None)"

text \<open>
  \<open>/Cannot find module ['"](\@?[^'"]+)['"]/\<close>. After the opening quote the group takes
  the longest run of characters that are not quotes (the optional \<open>@\<close> is one of
  them); the run must not be empty and a quote must follow it. A shorter run is followed by
  a character that is not a quote, so backtracking finds no other match.
\<close>

definition depAt :: matcher where
  "depAt s =
     (if litAt ''Cannot find module '' s then
        (case drop 19 s of
           [] \<Rightarrow> None
         | q # r \<Rightarrow>
             if isQuote q then
               (let nm = takeWhile (\<lambda>c. \<not> isQuote c) r;
                    rest = dropWhile (\<lambda>c. \<not> isQuote c) r
                in if nm \<noteq> [] \<and> rest \<noteq> [] then Some (19 + 1 + length nm + 1, nm)
                   else None)
             else None)
      else None)"

text \<open>
  \<open>Line \d+:\d+\<close> at the start of \<open>s\<close>: the length of its match. Each \<open>\d+\<close>
  takes the longest run of digits; after the first a colon must follow, and a shorter run
  is followed by a digit.
\<close>

definition lineNumAt :: "string \<Rightarrow> nat option" where
  "lineNumAt s =
     (if litAt ''Line '' s then
        (let d1 = takeWhile isDigit (drop 5 s); r1 = dropWhile isDigit (drop 5 s)
         in if d1 = [] then None
            else (case r1 of
                    [] \<Rightarrow> None
                  | c # r2 \<Rightarrow>
                      if c = CHR '':'' then
                        (let d2 = takeWhile isDigit r2
                         in if d2 = [] then None
                            else Some (5 + length d1 + 1 + length d2))
                      else None))
      else None)"

text \<open>
  \<open>.*?Line \d+:\d+\<close> at the start of \<open>s\<close>: the lazy star first tries the rest of
  the pattern where it stands, and takes one more character (not a line terminator) only
  when that fails.
\<close>

fun lazyDots :: "string \<Rightarrow> nat option" where
  "lazyDots [] = lineNumAt []"
| "lazyDots (c # cs) =
     (case lineNumAt (c # cs) of
        Some n \<Rightarrow> Some n
      | None \<Rightarrow> if lineTerminator c then None else map_option Suc (lazyDots cs))"

text \<open>\<open>/\[eslint\].*?Line \d+:\d+/\<close>\<close>

definition eslintAt :: matcher where
  "eslintAt s =
     (if litAt ''[eslint]'' s then map_option (\<lambda>n. (8 + n, [])) (lazyDots (drop 8 s))
      else None)"

text \<open>
  The iteration of a global pattern over the input, from \<open>lastIndex = 0\<close>: the pattern
  is tried at each position in turn, and after a match of length \<open>n\<close> the next
  \<open>n - 1\<close> positions are skipped (\<open>lastIndex\<close> is the end of the match). The result
  lists the matched text and capture group 1 of each match. None of the three patterns
  matches the empty string, so nothing is tried at the end of the input.
\<close>

fun execAll :: "matcher \<Rightarrow> nat \<Rightarrow> string \<Rightarrow> (string \<times> string) list" where
  "execAll m skip [] = []"
| "execAll m skip (c # cs) =
     (if 0 < skip then execAll m (skip - 1) cs
      else (case m (c # cs) of
              None \<Rightarrow> execAll m 0 cs
            | Some (n, g) \<Rightarrow> (take n (c # cs), g) # execAll m (n - 1) cs))"

text \<open>\<open>logs.match(pattern)\<close>: the matched texts, or \<open>null\<close> when there is none.\<close>

definition matchGlobal :: "matcher \<Rightarrow> string \<Rightarrow> string list option" where
  "matchGlobal m s = (let found = map fst (execAll m 0 s) in if found = [] then None else Some found)"

text \<open>\<open>[...new Set(xs)]\<close>: the elements in insertion order, each once.\<close>

definition setAdd :: "'a list \<Rightarrow> 'a \<Rightarrow> 'a list" where
  "setAdd acc x = (if x \<in> set acc then acc else acc @ [x])"

definition newSet :: "'a list \<Rightarrow> 'a list" where
  "newSet xs = foldl setAdd [] xs"

record parsedError =
  errType :: string
  matches :: "string list"

definition parseErrors :: "string \<Rightarrow> parsedError list" where
  "parseErrors logs =
     (case matchGlobal eslintAt logs of
        None \<Rightarrow> []
      | Some eslintMatches \<Rightarrow> [\<lparr> errType = ''eslint'', matches = eslintMatches \<rparr>])
     @ (case matchGlobal buildAt logs of
          None \<Rightarrow> []
        | Some buildMatches \<Rightarrow> [\<lparr> errType = ''build'', matches = buildMatches \<rparr>])
     @ (let depMatches = map snd (execAll depAt 0 logs)
        in if 0 < length depMatches
           then [\<lparr> errType = ''dependency'', matches = newSet depMatches \<rparr>]
           else [])"

text \<open>
  What it means for a pattern to match, stated on the text alone: the input splits into
  the pieces the pattern names. Each pattern is first stated for a match that starts where
  the text starts, and then anywhere in the log.
\<close>

definition failedToCompileAt :: "string \<Rightarrow> bool" where
  "failedToCompileAt suf =
     (\<exists>w post. suf = w @ post \<and> map canon w = map canon ''Failed to compile'')"

definition matchesBuild :: "string \<Rightarrow> bool" where
  "matchesBuild s = (\<exists>pre suf. s = pre @ suf \<and> failedToCompileAt suf)"

definition quotedModuleAt :: "string \<Rightarrow> string \<Rightarrow> bool" where
  "quotedModuleAt nm suf =
     (\<exists>kw q1 q2 post.
        suf = kw @ [q1] @ nm @ [q2] @ post \<and>
        map canon kw = map canon ''Cannot find module '' \<and>
        isQuote q1 \<and> isQuote q2 \<and> nm \<noteq> [] \<and> (\<forall>c \<in> set nm. \<not> isQuote c))"

definition matchesDep :: "string \<Rightarrow> bool" where
  "matchesDep s = (\<exists>pre suf nm. s = pre @ suf \<and> quotedModuleAt nm suf)"

definition lineNumber :: "string \<Rightarrow> bool" where
  "lineNumber t =
     (\<exists>ln d1 d2 post.
        t = ln @ d1 @ [CHR '':''] @ d2 @ post \<and>
        map canon ln = map canon ''Line '' \<and>
        d1 \<noteq> [] \<and> (\<forall>c \<in> set d1. isDigit c) \<and>
        d2 \<noteq> [] \<and> (\<forall>c \<in> set d2. isDigit c))"

definition eslintLineAt :: "string \<Rightarrow> bool" where
  "eslintLineAt suf =
     (\<exists>tag mid t.
        suf = tag @ mid @ t \<and>
        map canon tag = map canon ''[eslint]'' \<and>
        (\<forall>c \<in> set mid. \<not> lineTerminator c) \<and> lineNumber t)"

definition matchesEslint :: "string \<Rightarrow> bool" where
  "matchesEslint s = (\<exists>pre suf. s = pre @ suf \<and> eslintLineAt suf)"

primrec firstOccurrences :: "'a list \<Rightarrow> 'a list" where
  "firstOccurrences [] = []"
| "firstOccurrences (x # xs) = x # filter (\<lambda>y. y \<noteq> x) (firstOccurrences xs)"

definition moduleNames :: "string \<Rightarrow> string list" where
  "moduleNames logs = map snd (execAll depAt 0 logs)"

text \<open>
  The log contains the text \<open>Cannot find module '<name>'\<close> as it is written: in this
  case and between single quotes.
\<close>

definition mentionsMissingModule :: "string \<Rightarrow> bool" where
  "mentionsMissingModule logs =
     (\<exists>pre nm post. logs = pre @ ''Cannot find module '' @ [sq] @ nm @ [sq] @ post)"

definition doubleQuotedLog :: string where
  "doubleQuotedLog = ''Cannot find module '' @ [dq] @ ''react'' @ [dq]"

definition singleQuotedLog :: string where
  "singleQuotedLog = ''cannot find module '' @ [sq] @ ''ab'' @ [sq]"

section \<open>The deploy script\<close>

subsection \<open>The world outside the script\<close>

text \<open>
  The script acts on the world by running commands and by two HTTP requests. The model
  records every one of them, in order, in a trace; the step of a command is its position in
  the trace. What the world answers is given by the environment, step by step: whether the
  command at a step exits with status 0 (for a request, whether the response is \<open>ok\<close>),
  what it prints, and, for the two \<open>gh\<close> queries whose output the script parses as
  JSON, the parsed value (\<open>None\<close> when the output does not parse). The environment is
  arbitrary: every behaviour of \<open>git\<close>, \<open>gh\<close>, \<open>npm\<close> and Firebase is one
  of its values. The live Remote Config template is the only state the script changes
  through the requests.
\<close>

datatype command =
    GhVersion
  | GitBranchShowCurrent
  | FirebasePrintAccessToken
  | HttpGetRemoteConfig
  | HttpPutRemoteConfig rcConfig
  | GhRunList
  | GitStatusPorcelain
  | GitDiffStat
  | GitAddAll
  | GitCommit string
  | GitPush
  | GitRevParseHead
  | GhRunView nat
  | GhRunViewLog nat
  | EslintFix
  | NpmInstall string

record runInfo =
  databaseId :: nat
  headSha :: string

record runStatus =
  status :: string
  conclusion :: string

record env =
  isProduction :: bool
  firebaseToken :: "string option"
  localFile :: "rcConfig option"
  exitsOk :: "nat \<Rightarrow> bool"
  stdoutOf :: "nat \<Rightarrow> string"
  runListOf :: "nat \<Rightarrow> runInfo list option"
  runStatusOf :: "nat \<Rightarrow> runStatus option"

record world =
  trace :: "command list"
  remote :: rcConfig

definition now :: "world \<Rightarrow> nat" where
  "now w = length (trace w)"

definition issue :: "command \<Rightarrow> world \<Rightarrow> world" where
  "issue c w = w \<lparr> trace := trace w @ [c] \<rparr>"

datatype deployError = TokenUnavailable | GetFailed | PutFailed | ConfigNotFound

datatype outcome = Returned bool | Threw deployError

definition MAX_ATTEMPTS :: nat where
  "MAX_ATTEMPTS = 5"

text \<open>\<open>s.trim()\<close>\<close>

definition isSpace :: "char \<Rightarrow> bool" where
  "isSpace c =
     (c \<in> set [CHR 0x09, CHR 0x0A, CHR 0x0B, CHR 0x0C, CHR 0x0D, CHR 0x20, CHR 0xA0])"

definition trim :: "string \<Rightarrow> string" where
  "trim s = rev (dropWhile isSpace (rev (dropWhile isSpace s)))"

subsection \<open>Commands\<close>

text \<open>\<open>run(cmd)\<close> never throws: it returns what the command printed and whether it succeeded.\<close>

definition run :: "env \<Rightarrow> command \<Rightarrow> world \<Rightarrow> (string \<times> bool) \<times> world" where
  "run e c w = ((stdoutOf e (now w), exitsOk e (now w)), issue c w)"

definition checkGhInstalled :: "env \<Rightarrow> world \<Rightarrow> bool \<times> world" where
  "checkGhInstalled e w = (exitsOk e (now w), issue GhVersion w)"

text \<open>
  The test \<open>if (process.env.FIREBASE_TOKEN)\<close>: the variable is present and its value
  is not the empty string.
\<close>

definition tokenSet :: "env \<Rightarrow> bool" where
  "tokenSet e = (case firebaseToken e of None \<Rightarrow> False | Some token \<Rightarrow> token \<noteq> [])"

text \<open>
  \<open>getAccessToken\<close> of the standalone validator: the environment variable, when it is
  set to a string that is not empty, and the CLI otherwise.
\<close>

definition getAccessToken_validate :: "env \<Rightarrow> world \<Rightarrow> (deployError + string) \<times> world" where
  "getAccessToken_validate e w =
     (case firebaseToken e of
        Some token \<Rightarrow>
          if token \<noteq> [] then (Inr token, w)
          else (if exitsOk e (now w) then Inr (trim (stdoutOf e (now w))) else Inl TokenUnavailable,
                issue FirebasePrintAccessToken w)
      | None \<Rightarrow>
          (if exitsOk e (now w) then Inr (trim (stdoutOf e (now w))) else Inl TokenUnavailable,
           issue FirebasePrintAccessToken w))"

text \<open>\<open>getAccessToken\<close> of the deploy script: the CLI first, in both branches.\<close>

definition getAccessToken_deploy :: "env \<Rightarrow> world \<Rightarrow> (deployError + string) \<times> world" where
  "getAccessToken_deploy e w =
     (case firebaseToken e of
        Some token \<Rightarrow>
          if token \<noteq> [] then
            (if exitsOk e (now w) then Inr (trim (stdoutOf e (now w))) else Inr token,
             issue FirebasePrintAccessToken w)
          else
            (if exitsOk e (now w) then Inr (trim (stdoutOf e (now w))) else Inl TokenUnavailable,
             issue FirebasePrintAccessToken w)
      | None \<Rightarrow>
          (if exitsOk e (now w) then Inr (trim (stdoutOf e (now w))) else Inl TokenUnavailable,
           issue FirebasePrintAccessToken w))"

definition getRemoteConfig :: "env \<Rightarrow> world \<Rightarrow> (deployError + rcConfig) \<times> world" where
  "getRemoteConfig e w =
     (case getAccessToken_deploy e w of
        (Inl err, w1) \<Rightarrow> (Inl err, w1)
      | (Inr token, w1) \<Rightarrow>
          (if exitsOk e (now w1) then Inr (remote w1) else Inl GetFailed,
           issue HttpGetRemoteConfig w1))"

text \<open>A \<open>PUT\<close> that the server accepts replaces the live template.\<close>

definition setRemoteConfig :: "env \<Rightarrow> rcConfig \<Rightarrow> world \<Rightarrow> (deployError + unit) \<times> world" where
  "setRemoteConfig e config w =
     (case getAccessToken_deploy e w of
        (Inl err, w1) \<Rightarrow> (Inl err, w1)
      | (Inr token, w1) \<Rightarrow>
          if exitsOk e (now w1)
          then (Inr (), (issue (HttpPutRemoteConfig config) w1) \<lparr> remote := config \<rparr>)
          else (Inl PutFailed, issue (HttpPutRemoteConfig config) w1))"

definition validateRemoteConfig :: "env \<Rightarrow> world \<Rightarrow> (deployError + string list) \<times> world" where
  "validateRemoteConfig e w =
     (case localFile e of
        None \<Rightarrow> (Inl ConfigNotFound, w)
      | Some localConfig \<Rightarrow>
          (case getRemoteConfig e w of
             (Inl err, w1) \<Rightarrow> (Inl err, w1)
           | (Inr remoteConfig, w1) \<Rightarrow> (Inr (diffRemoteConfig localConfig remoteConfig), w1)))"

subsection \<open>Building and publishing the template: \<open>syncRemoteConfig\<close>\<close>

definition controlParameter :: rcParameter where
  "controlParameter = \<lparr> defaultValue = Some (Some ''control''), paramConditionalValues = None \<rparr>"

text \<open>
  The inner loop: a fresh object receives the entries of \<open>conditions\<close>, one
  assignment each.
\<close>

definition copyEntries :: "(string \<times> rcValue) list \<Rightarrow> (string \<times> rcValue) list" where
  "copyEntries conds = foldl (\<lambda>obj (conditionName, conditionValue).
                               assignEntry conditionName conditionValue obj) [] conds"

text \<open>
  One round of the loop over \<open>Object.entries(config.conditionalValues)\<close>, on the
  parameters of the template. When \<open>template.parameters[paramKey]\<close> is falsy the
  parameter is created with the default \<open>control\<close>; then the
  \<open>conditionalValues\<close> of what \<open>template.parameters[paramKey]\<close> reads become a
  fresh object with the entries of \<open>conditions\<close>. Under a name that the object of
  parameters inherits and does not own, the lookup is truthy: no parameter is created, and
  the conditional values are assigned to the member of \<open>Object.prototype\<close>, not to
  the template. For \<open>__proto__\<close> that member is \<open>Object.prototype\<close> itself,
  and from then on every object inherits a property \<open>conditionalValues\<close>: the round
  returns that fact, because a later key \<open>conditionalValues\<close> then reads as present,
  too.
\<close>

definition mergeConditionalValues ::
  "(string \<times> rcParameter) list \<times> bool \<Rightarrow> string \<times> (string \<times> rcValue) list \<Rightarrow>
   (string \<times> rcParameter) list \<times> bool" where
  "mergeConditionalValues state entry =
     (case (state, entry) of ((params, protoWritten), (paramKey, conds)) \<Rightarrow>
        (case getProp params paramKey of
           Own param \<Rightarrow>
             (map (\<lambda>(k, p). if k = paramKey
                            then (k, p \<lparr> paramConditionalValues := Some (copyEntries conds) \<rparr>)
                            else (k, p)) params,
              protoWritten)
         | Inherited m \<Rightarrow> (params, protoWritten \<or> m = ''__proto__'')
         | Absent \<Rightarrow>
             if protoWritten \<and> paramKey = ''conditionalValues'' then (params, protoWritten)
             else (insertProp paramKey
                     (controlParameter \<lparr> paramConditionalValues := Some (copyEntries conds) \<rparr>)
                     params,
                   protoWritten)))"

text \<open>
  The template that \<open>syncRemoteConfig\<close> publishes, in a process whose
  \<open>Object.prototype\<close> is as the engine made it. Only a file that lists conditional
  values for \<open>__proto__\<close> without a parameter of that name changes the prototype; what
  the script reads through the inherited property in a later attempt of the same process
  is not followed here.
\<close>

definition buildTemplate :: "rcConfig \<Rightarrow> rcConfig" where
  "buildTemplate config =
     \<lparr> parameters =
         Some (case conditionalValues config of
                 None \<Rightarrow> orEmpty (parameters config)
               | Some cvs \<Rightarrow>
                   fst (foldl mergeConditionalValues (orEmpty (parameters config), False) cvs)),
       conditions = Some (orEmpty (conditions config)),
       conditionalValues = None \<rparr>"

definition syncRemoteConfig :: "env \<Rightarrow> world \<Rightarrow> (deployError + unit) \<times> world" where
  "syncRemoteConfig e w =
     (case localFile e of
        None \<Rightarrow> (Inl ConfigNotFound, w)
      | Some config \<Rightarrow> setRemoteConfig e (buildTemplate config) w)"

subsection \<open>Workflow runs\<close>

text \<open>
  \<open>getLatestRunId(commitSha)\<close>; any failure gives \<open>null\<close>. The argument is
  used as a condition: without it, and with the empty string, the function answers the
  first run listed. A run id is used as a condition, so the id \<open>0\<close> counts as no id.
\<close>

definition truthySha :: "string option \<Rightarrow> bool" where
  "truthySha commitSha = (case commitSha of None \<Rightarrow> False | Some sha \<Rightarrow> sha \<noteq> [])"

definition getLatestRunId :: "env \<Rightarrow> string option \<Rightarrow> world \<Rightarrow> nat option \<times> world" where
  "getLatestRunId e commitSha w =
     (case runListOf e (now w) of
        None \<Rightarrow> None
      | Some runs \<Rightarrow>
          (if truthySha commitSha
           then map_option databaseId (find (\<lambda>r. Some (headSha r) = commitSha) runs)
           else
             (case runs of
                [] \<Rightarrow> None
              | r # rest \<Rightarrow> if databaseId r = 0 then None else Some (databaseId r))),
      issue GhRunList w)"

definition noRunId :: "nat option \<Rightarrow> bool" where
  "noRunId runId = (case runId of None \<Rightarrow> True | Some n \<Rightarrow> n = 0)"

text \<open>
  The loop \<open>while (!runId && waitCount < 12)\<close>, by the number of rounds that remain.
\<close>

primrec awaitRunId :: "env \<Rightarrow> string \<Rightarrow> nat \<Rightarrow> nat option \<Rightarrow> world \<Rightarrow> nat option \<times> world" where
  "awaitRunId e sha 0 runId w = (runId, w)"
| "awaitRunId e sha (Suc n) runId w =
     (if noRunId runId
      then (case getLatestRunId e (Some sha) w of (runId', w') \<Rightarrow> awaitRunId e sha n runId' w')
      else (runId, w))"

definition getRunStatus :: "env \<Rightarrow> nat \<Rightarrow> world \<Rightarrow> runStatus option \<times> world" where
  "getRunStatus e runId w = (runStatusOf e (now w), issue (GhRunView runId) w)"

definition getRunLogs :: "env \<Rightarrow> nat \<Rightarrow> world \<Rightarrow> string \<times> world" where
  "getRunLogs e runId w = (stdoutOf e (now w), issue (GhRunViewLog runId) w)"

text \<open>
  The polling loop \<open>while (true)\<close>. It ends only when a status query answers
  \<open>completed\<close>; a run of the loop that never ends has no result.
\<close>

partial_function (option) pollStatus :: "env \<Rightarrow> nat \<Rightarrow> world \<Rightarrow> (runStatus \<times> world) option" where
  "pollStatus e runId w =
     (case getRunStatus e runId w of
        (None, w') \<Rightarrow> pollStatus e runId w'
      | (Some statusResult, w') \<Rightarrow>
          if status statusResult = ''completed'' then Some (statusResult, w')
          else pollStatus e runId w')"

subsection \<open>\<open>autoFix\<close>\<close>

fun installPackages :: "env \<Rightarrow> string list \<Rightarrow> bool \<Rightarrow> world \<Rightarrow> bool \<times> world" where
  "installPackages e [] fixed w = (fixed, w)"
| "installPackages e (pkg # pkgs) fixed w =
     (case run e (NpmInstall pkg) w of
        ((out, ok), w') \<Rightarrow> installPackages e pkgs (fixed \<or> ok) w')"

fun fixErrors :: "env \<Rightarrow> parsedError list \<Rightarrow> bool \<Rightarrow> world \<Rightarrow> bool \<times> world" where
  "fixErrors e [] fixed w = (fixed, w)"
| "fixErrors e (error # rest) fixed w =
     (case (if errType error = ''eslint''
            then (case run e EslintFix w of ((out, ok), w') \<Rightarrow> (fixed \<or> ok, w'))
            else (fixed, w)) of
        (fixed1, w1) \<Rightarrow>
          (case (if errType error = ''dependency''
                 then installPackages e (matches error) fixed1 w1
                 else (fixed1, w1)) of
             (fixed2, w2) \<Rightarrow> fixErrors e rest fixed2 w2))"

definition commitAndPush :: "env \<Rightarrow> string \<Rightarrow> world \<Rightarrow> world" where
  "commitAndPush e message w =
     snd (run e GitPush (snd (run e (GitCommit message) (snd (run e GitAddAll w)))))"

definition autoFix :: "env \<Rightarrow> parsedError list \<Rightarrow> world \<Rightarrow> bool \<times> world" where
  "autoFix e errs w =
     (case fixErrors e errs False w of
        (fixed, w1) \<Rightarrow>
          if fixed then
            (case run e GitStatusPorcelain w1 of
               ((out, ok), w2) \<Rightarrow>
                 if trim out \<noteq> [] then (True, commitAndPush e ''deploy: auto-fix errors'' w2)
                 else (False, w2))
          else (False, w1))"

subsection \<open>\<open>deploy\<close>\<close>

text \<open>
  The validation of the Remote Config and the sync that follows a failed one
  (\<open>validationErrors.length > 0\<close>).
\<close>

definition validateStep :: "env \<Rightarrow> world \<Rightarrow> (deployError + unit) \<times> world" where
  "validateStep e w =
     (case validateRemoteConfig e w of
        (Inl err, w1) \<Rightarrow> (Inl err, w1)
      | (Inr validationErrors, w1) \<Rightarrow>
          if 0 < length validationErrors then syncRemoteConfig e w1 else (Inr (), w1))"

text \<open>
  The checks before the attempt budget: the GitHub CLI, the branch, the Remote Config,
  and the production check. \<open>Some\<close> is the early end of \<open>deploy\<close>.
\<close>

definition preflight :: "env \<Rightarrow> world \<Rightarrow> outcome option \<times> world" where
  "preflight e w =
     (case checkGhInstalled e w of
        (ghInstalled, w1) \<Rightarrow>
          if \<not> ghInstalled then (Some (Returned False), w1)
          else
            (case run e GitBranchShowCurrent w1 of
               ((currentBranch, ok), w2) \<Rightarrow>
                 let branch = trim currentBranch
                 in if branch \<noteq> ''main'' \<and> branch \<noteq> ''master''
                    then (Some (Returned False), w2)
                    else
                      (case validateStep e w2 of
                         (Inl err, w3) \<Rightarrow> (Some (Threw err), w3)
                       | (Inr u, w3) \<Rightarrow>
                           if isProduction e then (Some (Returned False), w3)
                           else (None, w3))))"

text \<open>
  From the query for the latest run to the end of the wait for the run of the pushed
  commit.
\<close>

definition startRun :: "env \<Rightarrow> world \<Rightarrow> nat option \<times> world" where
  "startRun e w =
     (case getLatestRunId e None w of
        (beforeRunId, w1) \<Rightarrow>
          (case run e GitStatusPorcelain w1 of
             ((out, ok), w2) \<Rightarrow>
               let w3 = (if trim out \<noteq> []
                         then commitAndPush e ''deploy: prepare for deployment''
                                (snd (run e GitDiffStat w2))
                         else w2)
               in (case run e GitRevParseHead w3 of
                     ((currentCommit, ok'), w4) \<Rightarrow>
                       let pushedCommitSha = trim currentCommit
                       in (case getLatestRunId e (Some pushedCommitSha) w4 of
                             (runId, w5) \<Rightarrow> awaitRunId e pushedCommitSha 12 runId w5))))"

text \<open>After a run that did not succeed: the logs, the errors, the fixes. The result says
  whether a fix was pushed.\<close>

definition recover :: "env \<Rightarrow> nat \<Rightarrow> world \<Rightarrow> bool \<times> world" where
  "recover e runId w =
     (case getRunLogs e runId w of
        (logs, w1) \<Rightarrow>
          let errs = parseErrors logs
          in if length errs = 0 then (False, w1) else autoFix e errs w1)"

function deploy :: "env \<Rightarrow> nat \<Rightarrow> world \<Rightarrow> (outcome \<times> world) option" where
  "deploy e attempt w =
     (case preflight e w of
        (Some out, w1) \<Rightarrow> Some (out, w1)
      | (None, w1) \<Rightarrow>
          if MAX_ATTEMPTS < attempt then Some (Returned False, w1)
          else
            (case startRun e w1 of
               (runId, w2) \<Rightarrow>
                 (case runId of
                    None \<Rightarrow> Some (Returned False, w2)
                  | Some rid \<Rightarrow>
                      if rid = 0 then Some (Returned False, w2)
                      else
                        (case pollStatus e rid w2 of
                           None \<Rightarrow> None
                         | Some (statusResult, w3) \<Rightarrow>
                             if conclusion statusResult = ''success''
                             then Some (Returned True, w3)
                             else
                               (case recover e rid w3 of
                                  (fixed, w4) \<Rightarrow>
                                    if fixed then deploy e (attempt + 1) w4
                                    else Some (Returned False, w4))))))"
  by pat_completeness auto
termination
  by (relation "measure (\<lambda>(e, attempt, w). MAX_ATTEMPTS + 1 - attempt)") auto

declare deploy.simps [simp del]

subsection \<open>Reading a run of the script off the trace\<close>

text \<open>The commands a step of the script has added to the trace.\<close>

definition newCommands :: "world \<Rightarrow> world \<Rightarrow> command list" where
  "newCommands w w' = drop (length (trace w)) (trace w')"

definition isPut :: "command \<Rightarrow> bool" where
  "isPut c = (case c of HttpPutRemoteConfig config \<Rightarrow> True | _ \<Rightarrow> False)"

definition isRunView :: "command \<Rightarrow> bool" where
  "isRunView c = (case c of GhRunView runId \<Rightarrow> True | _ \<Rightarrow> False)"

text \<open>
  Every attempt that passes the attempt budget reads the commit to deploy once, with
  \<open>git rev-parse HEAD\<close>, and no other step of the script does: the attempts made
  between two worlds are counted by that command.
\<close>

definition attemptsMade :: "world \<Rightarrow> world \<Rightarrow> nat" where
  "attemptsMade w w' = length (filter (\<lambda>c. c = GitRevParseHead) (newCommands w w'))"

text \<open>The commands of the checks that come before the attempt budget.\<close>

definition preflightCommand :: "command \<Rightarrow> bool" where
  "preflightCommand c =
     (c = GhVersion \<or> c = GitBranchShowCurrent \<or> c = FirebasePrintAccessToken \<or>
      c = HttpGetRemoteConfig \<or> isPut c)"

text \<open>
  A command that neither publishes a template, nor queries the status of a run, nor opens
  an attempt.
\<close>

definition quiet :: "command \<Rightarrow> bool" where
  "quiet c = (\<not> isPut c \<and> \<not> isRunView c \<and> c \<noteq> GitRevParseHead)"

text \<open>
  \<open>grows P w w'\<close>: the trace of \<open>w'\<close> is the trace of \<open>w\<close> followed by
  commands that satisfy \<open>P\<close>, and the live template is the same.
\<close>

definition grows :: "(command \<Rightarrow> bool) \<Rightarrow> world \<Rightarrow> world \<Rightarrow> bool" where
  "grows P w w' =
     (\<exists>cs. trace w' = trace w @ cs \<and> (\<forall>c \<in> set cs. P c) \<and> remote w' = remote w)"

text \<open>The diff of the deploy script finds nothing to correct in the live template.\<close>

definition nothingToSync :: "env \<Rightarrow> world \<Rightarrow> bool" where
  "nothingToSync e w = (\<forall>l. localFile e = Some l \<longrightarrow> diffRemoteConfig l (remote w) = [])"

text \<open>The status query at step \<open>n\<close> answers \<open>completed\<close>.\<close>

definition completedAt :: "env \<Rightarrow> nat \<Rightarrow> bool" where
  "completedAt e n =
     (case runStatusOf e n of None \<Rightarrow> False | Some r \<Rightarrow> status r = ''completed'')"

text \<open>
  The last action of the script was a status query, and it was answered \<open>completed\<close>
  with the conclusion \<open>success\<close>.
\<close>

definition lastPollSucceeded :: "env \<Rightarrow> world \<Rightarrow> bool" where
  "lastPollSucceeded e w =
     (trace w \<noteq> [] \<and> isRunView (last (trace w)) \<and>
      (case runStatusOf e (now w - 1) of
         None \<Rightarrow> False
       | Some r \<Rightarrow> status r = ''completed'' \<and> conclusion r = ''success''))"

text \<open>
  \<open>counted k w w'\<close>: the trace of \<open>w'\<close> extends the trace of \<open>w\<close>, by commands
  that open \<open>k\<close> attempts.
\<close>

definition counted :: "nat \<Rightarrow> world \<Rightarrow> world \<Rightarrow> bool" where
  "counted k w w' = (trace w' = trace w @ newCommands w w' \<and> attemptsMade w w' = k)"

text \<open>
  Two answers to a status query agree up to the conclusion of a run that has not
  completed; two environments differ only in such conclusions.
\<close>

definition agreeOnCompleted :: "runStatus option \<Rightarrow> runStatus option \<Rightarrow> bool" where
  "agreeOnCompleted a b =
     (case (a, b) of
        (None, None) \<Rightarrow> True
      | (Some r, Some r') \<Rightarrow>
          status r = status r' \<and> (status r = ''completed'' \<longrightarrow> conclusion r = conclusion r')
      | _ \<Rightarrow> False)"

definition differOnlyInPendingConclusions :: "env \<Rightarrow> env \<Rightarrow> bool" where
  "differOnlyInPendingConclusions e e' =
     (isProduction e' = isProduction e \<and> firebaseToken e' = firebaseToken e \<and>
      localFile e' = localFile e \<and> exitsOk e' = exitsOk e \<and> stdoutOf e' = stdoutOf e \<and>
      runListOf e' = runListOf e \<and>
      (\<forall>n. agreeOnCompleted (runStatusOf e n) (runStatusOf e' n)))"

text \<open>Every polling loop that starts ends: at any step, a later status query answers
  \<open>completed\<close>.\<close>

definition pollsComplete :: "env \<Rightarrow> bool" where
  "pollsComplete e = (\<forall>n. \<exists>m \<ge> n. completedAt e m)"

subsection \<open>Example environments\<close>

definition completedSuccess :: runStatus where
  "completedSuccess = \<lparr> status = ''completed'', conclusion = ''success'' \<rparr>"

definition inProgress :: "string \<Rightarrow> runStatus" where
  "inProgress c = \<lparr> status = ''in_progress'', conclusion = c \<rparr>"

text \<open>
  A staging deploy from \<open>main\<close> with a clean tree: every command succeeds, the branch
  query (step 1) prints \<open>main\<close>, \<open>git rev-parse HEAD\<close> (step 6) prints the commit,
  and the run list holds the run of that commit. The answers of the status queries are
  the parameter.
\<close>

definition exampleEnv :: "(nat \<Rightarrow> runStatus option) \<Rightarrow> env" where
  "exampleEnv polls =
     \<lparr> isProduction = False, firebaseToken = None, localFile = Some exampleLocal,
       exitsOk = (\<lambda>n. True),
       stdoutOf = (\<lambda>n. if n = 1 then ''main'' else if n = 6 then ''abc123'' else []),
       runListOf = (\<lambda>n. Some [\<lparr> databaseId = 7, headSha = ''abc123'' \<rparr>]),
       runStatusOf = polls \<rparr>"

text \<open>The run succeeds at once; it never completes; it completes at step 10.\<close>

definition okEnv :: env where
  "okEnv = exampleEnv (\<lambda>n. Some completedSuccess)"

definition stuckEnv :: env where
  "stuckEnv = exampleEnv (\<lambda>n. Some (inProgress []))"

definition slowEnv :: "string \<Rightarrow> env" where
  "slowEnv c = exampleEnv (\<lambda>n. if n < 10 then Some (inProgress c) else Some completedSuccess)"

text \<open>A world whose live template agrees with the local file, and one whose live
  template is empty.\<close>

definition syncedWorld :: world where
  "syncedWorld = \<lparr> trace = [], remote = exampleRemote \<rparr>"

definition emptyWorld :: world where
  "emptyWorld =
     \<lparr> trace = [],
       remote = \<lparr> parameters = None, conditions = None, conditionalValues = None \<rparr> \<rparr>"

text \<open>The worlds of the example deploy after its checks, after the run was found, and
  after one status query.\<close>

definition afterPreflight :: world where
  "afterPreflight =
     \<lparr> trace = [GhVersion, GitBranchShowCurrent, FirebasePrintAccessToken, HttpGetRemoteConfig],
       remote = exampleRemote \<rparr>"

definition afterStart :: world where
  "afterStart =
     \<lparr> trace = [GhVersion, GitBranchShowCurrent, FirebasePrintAccessToken, HttpGetRemoteConfig,
                GhRunList, GitStatusPorcelain, GitRevParseHead, GhRunList],
       remote = exampleRemote \<rparr>"

definition afterPoll :: world where
  "afterPoll =
     \<lparr> trace = [GhVersion, GitBranchShowCurrent, FirebasePrintAccessToken, HttpGetRemoteConfig,
                GhRunList, GitStatusPorcelain, GitRevParseHead, GhRunList, GhRunView 7],
       remote = exampleRemote \<rparr>"

text \<open>The world of the slow deploy after its third status query.\<close>

definition afterThreePolls :: world where
  "afterThreePolls =
     \<lparr> trace = [GhVersion, GitBranchShowCurrent, FirebasePrintAccessToken, HttpGetRemoteConfig,
                GhRunList, GitStatusPorcelain, GitRevParseHead, GhRunList,
                GhRunView 7, GhRunView 7, GhRunView 7],
       remote = exampleRemote \<rparr>"

text \<open>An environment with \<open>FIREBASE_TOKEN\<close> set and a CLI that fails.\<close>

definition ciEnv :: env where
  "ciEnv = (exampleEnv (\<lambda>n. None)) \<lparr> firebaseToken := Some ''ci-token'', exitsOk := (\<lambda>n. False) \<rparr>"

text \<open>An environment with \<open>FIREBASE_TOKEN\<close> set and a CLI that prints a token.\<close>

definition cliEnv :: env where
  "cliEnv = ciEnv \<lparr> exitsOk := (\<lambda>n. True),
                     stdoutOf := (\<lambda>n. '' ya29.cli-token'' @ [CHR 0x0A]) \<rparr>"

text \<open>The world after the validation step of the example deploy has published the
  template of the local file to the empty live template.\<close>

definition afterSync :: world where
  "afterSync =
     \<lparr> trace = [FirebasePrintAccessToken, HttpGetRemoteConfig,
                FirebasePrintAccessToken, HttpPutRemoteConfig (buildTemplate exampleLocal)],
       remote = buildTemplate exampleLocal \<rparr>"

subsection \<open>A local file that names a member of \<open>Object.prototype\<close>\<close>

text \<open>
  The example file with conditional values for one more parameter, which the file does
  not define: once under the name \<open>hasOwnProperty\<close>, once under an ordinary name.
\<close>

definition inheritedKeyFile :: rcConfig where
  "inheritedKeyFile =
     exampleLocal \<lparr> conditionalValues :=
       Some [(''navigation_banner'', [(''beta_users'', Some ''beta'')]),
             (''hasOwnProperty'', [(''beta_users'', Some ''beta'')])] \<rparr>"

definition ordinaryKeyFile :: rcConfig where
  "ordinaryKeyFile =
     exampleLocal \<lparr> conditionalValues :=
       Some [(''navigation_banner'', [(''beta_users'', Some ''beta'')]),
             (''new_editor'', [(''beta_users'', Some ''beta'')])] \<rparr>"

text \<open>The template with the parameter of the example file alone.\<close>

definition bannerTemplate :: rcConfig where
  "bannerTemplate =
     \<lparr> parameters = Some [(''navigation_banner'',
         \<lparr> defaultValue = Some (Some ''control''),
           paramConditionalValues = Some [(''beta_users'', Some ''beta'')] \<rparr>)],
       conditions = Some [\<lparr> name = ''beta_users'', expression = ''percent <= 10'' \<rparr>],
       conditionalValues = None \<rparr>"

text \<open>
  A staging deploy of the first file from \<open>main\<close> with a clean tree, against an empty
  live template: every command succeeds, the branch query (step 1) prints \<open>main\<close>,
  \<open>git rev-parse HEAD\<close> (step 8, after the sync) prints the commit, and the run of
  that commit succeeds at once.
\<close>

definition inheritedKeyEnv :: env where
  "inheritedKeyEnv =
     \<lparr> isProduction = False, firebaseToken = None, localFile = Some inheritedKeyFile,
       exitsOk = (\<lambda>n. True),
       stdoutOf = (\<lambda>n. if n = 1 then ''main'' else if n = 8 then ''abc123'' else []),
       runListOf = (\<lambda>n. Some [\<lparr> databaseId = 7, headSha = ''abc123'' \<rparr>]),
       runStatusOf = (\<lambda>n. Some completedSuccess) \<rparr>"

definition afterInheritedKeySync :: world where
  "afterInheritedKeySync =
     \<lparr> trace = [GhVersion, GitBranchShowCurrent, FirebasePrintAccessToken, HttpGetRemoteConfig,
                FirebasePrintAccessToken, HttpPutRemoteConfig bannerTemplate],
       remote = bannerTemplate \<rparr>"

definition afterInheritedKeyStart :: world where
  "afterInheritedKeyStart =
     \<lparr> trace = [GhVersion, GitBranchShowCurrent, FirebasePrintAccessToken, HttpGetRemoteConfig,
                FirebasePrintAccessToken, HttpPutRemoteConfig bannerTemplate,
                GhRunList, GitStatusPorcelain, GitRevParseHead, GhRunList],
       remote = bannerTemplate \<rparr>"

definition afterInheritedKeyDeploy :: world where
  "afterInheritedKeyDeploy =
     \<lparr> trace = [GhVersion, GitBranchShowCurrent, FirebasePrintAccessToken, HttpGetRemoteConfig,
                FirebasePrintAccessToken, HttpPutRemoteConfig bannerTemplate,
                GhRunList, GitStatusPorcelain, GitRevParseHead, GhRunList, GhRunView 7],
       remote = bannerTemplate \<rparr>"

section \<open>Properties of the validator\<close>

lemma orEmpty_Some: "orEmpty (Some xs) = xs"
  by (simp add: orEmpty_def)

lemma orEmpty_None: "orEmpty None = []"
  by (simp add: orEmpty_def)

lemma getProp_ordinary:
  "ordinaryName k \<Longrightarrow>
   getProp obj k = (case map_of obj k of None \<Rightarrow> Absent | Some v \<Rightarrow> Own v)"
  by (simp add: getProp_def ordinaryName_def split: option.splits)

lemma getProp_Own: "map_of obj k = Some v \<Longrightarrow> getProp obj k = Own v"
  by (simp add: getProp_def)

lemma getProp_Absent_iff:
  "getProp obj k = Absent \<longleftrightarrow> k \<notin> fst ` set obj \<and> ordinaryName k"
proof (cases "map_of obj k")
  case None
  then have "k \<notin> fst ` set obj" by (simp add: map_of_eq_None_iff)
  with None show ?thesis by (simp add: getProp_def ordinaryName_def)
next
  case (Some v)
  then have "k \<in> fst ` set obj" by (metis map_of_eq_None_iff option.distinct(1))
  with Some show ?thesis by (simp add: getProp_def)
qed

lemma conditionalErrors_Nil_iff:
  assumes "\<forall>conditionName \<in> fst ` set lc. ordinaryName conditionName"
  shows "conditionalErrors k rc lc = [] \<longleftrightarrow> conditionalsInSync rc lc"
  using assms
  by (induction lc)
     (auto simp: conditionalsInSync_def getProp_ordinary split: option.splits if_splits)

lemma paramErrors_Nil_iff:
  assumes "ordinaryName (fst e)"
    and "\<forall>(k, conds) \<in> set (orEmpty (conditionalValues l)).
           \<forall>conditionName \<in> fst ` set conds. ordinaryName conditionName"
  shows "paramErrors (orEmpty (parameters r)) (orEmpty (conditionalValues l)) e = []
         \<longleftrightarrow> paramInSync l r e"
proof -
  obtain k p where e: "e = (k, p)" by (cases e)
  let ?lc = "orEmpty (map_of (orEmpty (conditionalValues l)) k)"
  have lc: "ownEntries (case map_of (orEmpty (conditionalValues l)) k of
                          None \<Rightarrow> Absent | Some v \<Rightarrow> Own v) = ?lc"
    by (simp add: ownEntries_def orEmpty_def split: option.splits)
  have "\<forall>conditionName \<in> fst ` set ?lc. ordinaryName conditionName"
  proof (cases "map_of (orEmpty (conditionalValues l)) k")
    case None
    then show ?thesis by (simp add: orEmpty_def)
  next
    case (Some conds)
    then have "(k, conds) \<in> set (orEmpty (conditionalValues l))" by (rule map_of_SomeD)
    with assms(2) Some show ?thesis by (auto simp: orEmpty_def)
  qed
  then have c: "conditionalErrors k rc ?lc = [] \<longleftrightarrow> conditionalsInSync rc ?lc" for rc
    by (rule conditionalErrors_Nil_iff)
  have "paramErrors (orEmpty (parameters r)) (orEmpty (conditionalValues l)) (k, p) = []
        \<longleftrightarrow> paramInSync l r (k, p)"
    unfolding paramErrors_def paramInSync_def Let_def prod.case fst_conv snd_conv
      getProp_ordinary[OF assms(1)[unfolded e fst_conv]] lc
    by (cases "map_of (orEmpty (parameters r)) k") (simp_all add: truthyParameter_def c)
  then show ?thesis by (simp add: e)
qed

lemma conditionErrors_Nil_iff:
  "conditionErrors (orEmpty (conditions r)) c = [] \<longleftrightarrow> conditionInSync r c"
  by (auto simp: conditionErrors_def conditionInSync_def split: option.splits)

text \<open>
  For a local file of ordinary names the validator decides the agreement: it returns no
  error exactly when every local parameter exists remotely with the same default value and
  with every conditional value the file lists for it, and every local condition exists
  remotely under its name with the same expression.
\<close>

lemma validate_errors_Nil_iff:
  assumes "ordinaryNames l"
  shows "errors (validate l r) = [] \<longleftrightarrow> configInSync l r"
proof -
  have "paramErrors (orEmpty (parameters r)) (orEmpty (conditionalValues l)) e = []
        \<longleftrightarrow> paramInSync l r e" if "e \<in> set (orEmpty (parameters l))" for e
    using assms that by (intro paramErrors_Nil_iff) (auto simp: ordinaryNames_def)
  then show ?thesis
    by (simp add: validate_def Let_def configInSync_def conditionErrors_Nil_iff)
qed

lemma map_of_filter_keys:
  "P k \<Longrightarrow> map_of (filter (\<lambda>(k, p). P k) xs) k = map_of xs k"
  by (induction xs) auto

lemma paramErrors_dropExtra:
  assumes "e \<in> set lp"
  shows "paramErrors (filter (\<lambda>(k, p). map_of lp k \<noteq> None) rp) cv e = paramErrors rp cv e"
proof -
  obtain k p where e: "e = (k, p)" by (cases e)
  with assms have "map_of lp k \<noteq> None"
    by (metis map_of_eq_None_iff fst_conv image_eqI)
  then have "map_of (filter (\<lambda>(k, p). map_of lp k \<noteq> None) rp) k = map_of rp k"
    by (rule map_of_filter_keys[where P = "\<lambda>k. map_of lp k \<noteq> None"])
  then show ?thesis by (simp add: e paramErrors_def getProp_def)
qed

lemma validate_errors_dropExtra:
  "errors (validate l (dropExtraParams l r)) = errors (validate l r)"
proof -
  let ?lp = "orEmpty (parameters l)"
  let ?rp = "orEmpty (parameters r)"
  let ?cv = "orEmpty (conditionalValues l)"
  have "map (paramErrors (filter (\<lambda>(k, p). map_of ?lp k \<noteq> None) ?rp) ?cv) ?lp
        = map (paramErrors ?rp ?cv) ?lp"
    by (rule map_cong[OF refl]) (rule paramErrors_dropExtra)
  then show ?thesis
    by (simp add: validate_def Let_def dropExtraParams_def orEmpty_Some del: map_eq_conv)
qed

text \<open>
  Remote parameters that the local file does not list yield no error; each of them yields
  one warning, unless its name is one that every object inherits.
\<close>

lemma validate_warnings:
  "warnings (validate l r) =
     map msgExtraParam
       (filter (\<lambda>k. k \<notin> fst ` set (orEmpty (parameters l)) \<and> ordinaryName k)
          (map fst (orEmpty (parameters r))))"
  by (simp add: validate_def Let_def extraWarnings_def getProp_Absent_iff)

text \<open>
  When the names of the remote conditions are unique, the condition that \<open>find\<close>
  returns is the only one of that name: the agreement of a condition is then the existence
  of a remote condition of the same name and expression.
\<close>

lemma conditionInSync_distinct_names:
  assumes "distinct (map name (orEmpty (conditions r)))"
  shows "conditionInSync r lc \<longleftrightarrow>
         (\<exists>c \<in> set (orEmpty (conditions r)). name c = name lc \<and> expression c = expression lc)"
proof -
  have "distinct (map name rcs) \<Longrightarrow>
        (case find (\<lambda>c. name c = n) rcs of None \<Rightarrow> False | Some c \<Rightarrow> expression c = e)
        \<longleftrightarrow> (\<exists>c \<in> set rcs. name c = n \<and> expression c = e)" for rcs n e
  proof (induction rcs)
    case Nil
    then show ?case by simp
  next
    case (Cons a rcs)
    show ?case
    proof (cases "name a = n")
      case True
      with Cons.prems have "\<forall>c \<in> set rcs. name c \<noteq> n" by (auto simp: image_iff)
      with True show ?thesis by auto
    next
      case False
      with Cons show ?thesis by auto
    qed
  qed
  from this[OF assms] show ?thesis by (simp add: conditionInSync_def)
qed

lemma in_sync_example: "configInSync exampleLocal exampleRemote"
  by (simp add: configInSync_def paramInSync_def conditionInSync_def conditionalsInSync_def
        exampleLocal_def exampleRemote_def orEmpty_def defaultOf_def)

lemma validate_example:
  "validate exampleLocal exampleRemote
     = \<lparr> errors = [], warnings = [msgExtraParam ''legacy_flag''] \<rparr>"
  by (simp add: validate_def Let_def paramErrors_def conditionErrors_def extraWarnings_def
        getProp_def truthyParameter_def ownEntries_def objectPrototypeKeys_def
        exampleLocal_def exampleRemote_def orEmpty_def defaultOf_def)

lemma inherited_name_not_in_sync: "\<not> configInSync inheritedNameLocal emptyRemote"
  by (simp add: configInSync_def paramInSync_def inheritedNameLocal_def emptyRemote_def
        orEmpty_def)

text \<open>
  Claim C1 fails on the code. A local parameter named \<open>constructor\<close> that the live
  template lacks is not reported: \<open>remoteParams[paramKey]\<close> finds the member of
  \<open>Object.prototype\<close>, which is truthy and has no default value, as the local
  parameter has none. The validator returns no error and no warning, although the remote
  template has no parameter at all; for the same file with an ordinary name it reports
  the missing parameter.
\<close>

theorem validate_misses_inherited_name:
  "validate inheritedNameLocal emptyRemote = \<lparr> errors = [], warnings = [] \<rparr> \<and>
   map fst (orEmpty (parameters inheritedNameLocal)) = [''constructor''] \<and>
   orEmpty (parameters emptyRemote) = [] \<and>
   validate ordinaryNameLocal emptyRemote
     = \<lparr> errors = [msgMissingParam ''new_editor''], warnings = [] \<rparr>"
  by (simp add: validate_def Let_def paramErrors_def extraWarnings_def getProp_def
        truthyParameter_def ownEntries_def memberParameter_def objectPrototypeKeys_def
        inheritedNameLocal_def ordinaryNameLocal_def emptyRemote_def orEmpty_def defaultOf_def)

text \<open>
  Claim C3. The two copies of the diff do not agree. On a live template whose only
  difference from the local file is the expression of a condition, \<open>validate\<close> reports
  the condition and the deploy script's copy reports nothing: the copy has the check for
  a missing condition but not the comparison of the expressions.
\<close>

theorem diff_copies_disagree_on_expression:
  "errors (validate exampleLocal driftedRemote) = [msgDifferentExpression ''beta_users''] \<and>
   diffRemoteConfig exampleLocal driftedRemote = []"
  by (simp add: validate_def diffRemoteConfig_def Let_def paramErrors_def paramErrorsDeploy_def
        conditionErrors_def conditionErrorsDeploy_def getProp_def truthyParameter_def
        ownEntries_def exampleLocal_def exampleRemote_def driftedRemote_def orEmpty_def
        defaultOf_def)

section \<open>Properties of the auth context\<close>

text \<open>
  Claim C8. \<open>useAuth\<close> throws the error \<open>useAuth must be used within an AuthProvider\<close>
  exactly when no provider encloses the caller (the context is \<open>null\<close>); otherwise it
  returns the value of the nearest provider, which holds that provider's \<open>user\<close> and
  \<open>loading\<close> state and its four functions. It never returns \<open>null\<close>.
\<close>

theorem useAuth_throws_iff_no_provider:
  "(useAuth providers = Inl (Error ''useAuth must be used within an AuthProvider'')
      \<longleftrightarrow> useContext providers = None) \<and>
   ((\<exists>e. useAuth providers = Inl e) \<longleftrightarrow> providers = []) \<and>
   useAuth providers \<noteq> Inr None \<and>
   useAuth ((auth, userState, loadingState) # outer) =
     Inr (Some \<lparr> user = userState, loading = loadingState,
                 login = SignInWithEmailAndPassword auth,
                 signup = CreateUserWithEmailAndPassword auth,
                 loginWithGoogle = SignInWithPopupGoogle auth,
                 logout = SignOut auth \<rparr>)"
  by (cases providers) (auto simp: useAuth_def AuthProvider_def Let_def)

theorem useAuth_throws_iff_no_provider_witness:
  "useAuth ([] :: (unit \<times> string option \<times> bool) list)
     = Inl (Error ''useAuth must be used within an AuthProvider'') \<and>
   useAuth [((), Some ''ada'', False)] = Inr (Some (AuthProvider () (Some ''ada'') False))"
  using useAuth_throws_iff_no_provider
          [of "[] :: (unit \<times> string option \<times> bool) list" "()" "Some ''ada''" False "[]"]
  by (simp add: AuthProvider_def)

section \<open>Properties of \<open>fetchFeatureFlags\<close>\<close>

lemma dom_assignProp:
  "dom (assignProp k v obj) = dom obj \<union> ({k} - {''__proto__''})"
  by (auto simp: assignProp_def)

lemma dom_defaultsOf:
  "dom (defaultsOf flags obj) = dom obj \<union> (key ` set flags - {''__proto__''})"
  by (induction flags arbitrary: obj) (auto simp: dom_assignProp)

lemma defaultsOf_notin:
  "k \<notin> key ` set flags \<Longrightarrow> defaultsOf flags obj k = obj k"
  by (induction flags arbitrary: obj) (auto simp: assignProp_def)

lemma defaultsOf_distinct:
  "distinct (map key flags) \<Longrightarrow> flag \<in> set flags \<Longrightarrow> key flag \<noteq> ''__proto__'' \<Longrightarrow>
   defaultsOf flags obj (key flag) = Some (default flag)"
proof (induction flags arbitrary: obj)
  case Nil
  then show ?case by simp
next
  case (Cons a flags)
  show ?case
  proof (cases "flag = a")
    case True
    with Cons.prems have "key a \<notin> key ` set flags" by simp
    with True Cons.prems(3) show ?thesis by (simp add: defaultsOf_notin assignProp_def)
  next
    case False
    with Cons show ?thesis by simp
  qed
qed

lemma dom_readFlags:
  "readFlags gs flags obj = Inr m \<Longrightarrow>
   dom m = dom obj \<union> (key ` set flags - {''__proto__''})"
  by (induction flags arbitrary: obj) (auto simp: dom_assignProp split: option.splits)

lemma readFlags_fails_iff:
  "(\<exists>e. readFlags gs flags obj = Inl e) \<longleftrightarrow> (\<exists>flag \<in> set flags. gs (key flag) = None)"
  by (induction flags arbitrary: obj) (auto split: option.splits)

lemma tryFetchFlags_fails_iff:
  "(\<exists>e. tryFetchFlags sdk flags = Inl e) \<longleftrightarrow> fetchFails sdk flags"
  using readFlags_fails_iff[of "getString sdk (defaultsOf flags Map.empty)" flags Map.empty]
  by (auto simp: tryFetchFlags_def fetchFails_def Let_def)

lemma fetchFeatureFlags_failed:
  "fetchFails sdk flags \<Longrightarrow> fetchFeatureFlags sdk flags = Inr (defaultsOf flags Map.empty)"
  using tryFetchFlags_fails_iff[of sdk flags]
  by (auto simp: fetchFeatureFlags_def split: sum.splits)

lemma fetchFeatureFlags_dom:
  assumes "fetchFeatureFlags sdk flags = Inr m"
  shows "dom m = key ` set flags - {''__proto__''}"
proof (cases "tryFetchFlags sdk flags")
  case (Inl e)
  with assms have "m = defaultsOf flags Map.empty"
    by (simp add: fetchFeatureFlags_def)
  then show ?thesis by (simp add: dom_defaultsOf)
next
  case (Inr obj)
  with assms have m: "tryFetchFlags sdk flags = Inr m"
    by (simp add: fetchFeatureFlags_def)
  then have "readFlags (getString sdk (defaultsOf flags Map.empty)) flags Map.empty = Inr m"
    by (simp add: tryFetchFlags_def Let_def split: if_splits)
  from dom_readFlags[OF this] show ?thesis by simp
qed

lemma fetchFeatureFlags_returns: "\<exists>m. fetchFeatureFlags sdk flags = Inr m"
  by (simp add: fetchFeatureFlags_def split: sum.splits)

text \<open>
  Claim C9. \<open>fetchFeatureFlags\<close> never throws: whatever the SDK does, it returns an
  object. The keys of the object are the keys of the registered flags, apart from the key
  \<open>__proto__\<close>, under which the assignment of a string creates no property. For a
  registry whose keys are distinct and not \<open>__proto__\<close> the object therefore has
  exactly one entry per flag. When a step of the fetch fails, the object maps the key of
  every flag of such a registry to the default that flag declares (of any registry with
  distinct keys: every key but \<open>__proto__\<close>).
\<close>

theorem fetchFeatureFlags_total_with_defaults:
  "\<exists>m. fetchFeatureFlags sdk flags = Inr m \<and>
       dom m = key ` set flags - {''__proto__''} \<and>
       (distinct (map key flags) \<and> ''__proto__'' \<notin> key ` set flags \<longrightarrow>
          dom m = key ` set flags \<and> card (dom m) = length flags) \<and>
       (fetchFails sdk flags \<longrightarrow> distinct (map key flags) \<longrightarrow>
          (\<forall>flag \<in> set flags. key flag \<noteq> ''__proto__'' \<longrightarrow>
             m (key flag) = Some (default flag)))"
proof -
  obtain m where m: "fetchFeatureFlags sdk flags = Inr m"
    using fetchFeatureFlags_returns by blast
  have d: "dom m = key ` set flags - {''__proto__''}"
    using m by (rule fetchFeatureFlags_dom)
  have c: "card (dom m) = length flags"
    if "distinct (map key flags)" "''__proto__'' \<notin> key ` set flags"
  proof -
    from that(2) d have "dom m = key ` set flags" by simp
    with that(1) show ?thesis by (metis distinct_card length_map list.set_map)
  qed
  have f: "m (key flag) = Some (default flag)"
    if "fetchFails sdk flags" "distinct (map key flags)" "flag \<in> set flags"
       "key flag \<noteq> ''__proto__''" for flag
  proof -
    from that(1) m have "m = defaultsOf flags Map.empty"
      by (simp add: fetchFeatureFlags_failed)
    with that(2,3,4) show ?thesis by (simp add: defaultsOf_distinct)
  qed
  from d have d': "''__proto__'' \<notin> key ` set flags \<Longrightarrow> dom m = key ` set flags" by simp
  from m d d' c f show ?thesis by blast
qed

theorem fetchFeatureFlags_total_with_defaults_witness:
  "fetchFails offlineSdk exampleFlags \<and> distinct (map key exampleFlags) \<and>
   ''__proto__'' \<notin> key ` set exampleFlags \<and>
   (\<exists>m. fetchFeatureFlags offlineSdk exampleFlags = Inr m \<and>
        dom m = {''navigation_banner'', ''new_editor''} \<and>
        m ''navigation_banner'' = Some ''control'' \<and> m ''new_editor'' = Some ''off'')"
proof -
  have h1: "fetchFails offlineSdk exampleFlags"
    by (simp add: fetchFails_def offlineSdk_def)
  have h2: "distinct (map key exampleFlags)"
    by (simp add: exampleFlags_def)
  have h3: "''__proto__'' \<notin> key ` set exampleFlags"
    by (simp add: exampleFlags_def)
  from fetchFeatureFlags_total_with_defaults[of offlineSdk exampleFlags] h1 h2 h3
  show ?thesis
    by (auto simp: exampleFlags_def)
qed

text \<open>The registry with the key \<open>__proto__\<close>: the object returned has no entry for it.\<close>

lemma fetchFeatureFlags_protoFlags:
  "fetchFeatureFlags offlineSdk protoFlags = Inr [''navigation_banner'' \<mapsto> ''control'']"
  by (simp add: fetchFeatureFlags_def tryFetchFlags_def offlineSdk_def protoFlags_def Let_def
        assignProp_def)

section \<open>Properties of the feature-flag hook\<close>

lemma fetch_online_example:
  "fetchFeatureFlags onlineSdk exampleFlags =
     Inr [''navigation_banner'' \<mapsto> ''control'', ''new_editor'' \<mapsto> ''on'']"
  by (simp add: fetchFeatureFlags_def tryFetchFlags_def onlineSdk_def exampleFlags_def Let_def
        assignProp_def)

lemma isStaging_stagingWindow: "isStaging (Some stagingWindow)"
  by (simp add: isStaging_def stagingWindow_def startsWith_def)

lemma not_isStaging_productionWindow: "\<not> isStaging (Some productionWindow)"
  by (simp add: isStaging_def productionWindow_def startsWith_def)

text \<open>
  Claim C4, as stated, fails. On a host whose name contains \<open>staging\<close> the hook
  resolves \<open>navigation_banner\<close> to \<open>beta\<close>, while the fetch delivers \<open>control\<close>
  for that key.
\<close>

theorem useFeatureFlag_not_pass_through:
  "flagValue (useFeatureFlag (Some stagingWindow) onlineSdk exampleFlags ''navigation_banner'')
     = Some (Str ''beta'') \<and>
   deliveredValue (Some stagingWindow) onlineSdk exampleFlags ''navigation_banner''
     = Some ''control'' \<and>
   flagValue (useFeatureFlag (Some stagingWindow) onlineSdk exampleFlags ''navigation_banner'')
     \<noteq> map_option Str
         (deliveredValue (Some stagingWindow) onlineSdk exampleFlags ''navigation_banner'')"
proof -
  have "getTestOverride (Some stagingWindow) = None"
    by (simp add: getTestOverride_def stagingWindow_def)
  then show ?thesis
    by (simp add: useFeatureFlag_def loadFlag_def deliveredValue_def isStaging_stagingWindow
          fetch_online_example)
qed

text \<open>
  A key that every object inherits. The fetch delivers nothing for \<open>constructor\<close>,
  and the hook hands the member of \<open>Object.prototype\<close> of that name to the setter
  of its value instead of \<open>null\<close>.
\<close>

lemma useFeatureFlag_inherited_name:
  "flagValue (useFeatureFlag (Some productionWindow) onlineSdk exampleFlags ''constructor'')
     = Some (ProtoMember ''constructor'') \<and>
   flagSource productionWindow onlineSdk exampleFlags ''constructor'' = None"
  by (simp add: useFeatureFlag_def loadFlag_def flagSource_def getTestOverride_def isStaging_def
        productionWindow_def fetch_online_example readKey_def orNull_def objectPrototypeKeys_def)

lemma passedThrough_None: "passedThrough None = None"
  by (simp add: passedThrough_def)

lemma readKey_ordinary:
  "ordinaryName k \<Longrightarrow> orNull (readKey obj k) = passedThrough (obj k)"
  by (simp add: readKey_def orNull_def passedThrough_def ordinaryName_def split: option.splits)

lemma ordinaryName_navigation_banner: "ordinaryName ''navigation_banner''"
  by (simp add: ordinaryName_def objectPrototypeKeys_def)

lemma loadFlag_other_key:
  assumes "flagKey \<noteq> ''navigation_banner''"
  shows "fst (loadFlag (Some (win \<lparr> hostname := h, localStorageItems := items \<rparr>)) sdk flags flagKey)
         = fst (loadFlag (Some win) sdk flags flagKey)"
  using assms
  by (simp add: loadFlag_def getTestOverride_def split: option.splits sum.splits)

lemma loadFlag_source:
  assumes "ordinaryName flagKey"
    and "flagKey \<noteq> ''navigation_banner'' \<or>
         (\<not> isStaging (Some win) \<and> \<not> getBetaFromStorage (Some win))"
  shows "flagValue (fst (loadFlag (Some win) sdk flags flagKey))
         = passedThrough (flagSource win sdk flags flagKey)"
  using assms(2)
  by (auto simp: loadFlag_def flagSource_def getTestOverride_def readKey_ordinary[OF assms(1)]
           passedThrough_None split: option.splits sum.splits)

lemma loadFlag_loading: "loading (fst (loadFlag (Some win) sdk flags flagKey)) = False"
  by (simp add: loadFlag_def getTestOverride_def split: option.splits sum.splits)

text \<open>
  Claim C4, amended. For every key other than \<open>navigation_banner\<close> the hook does
  not look at the host name or at the local storage, and, when the key is not the name of
  a member of \<open>Object.prototype\<close>, it passes through: it resolves the value its
  source holds for the key (the test override, else the flags cached on the window, else
  the fetch), an absent or empty value as \<open>null\<close>. For \<open>navigation_banner\<close> it
  resolves \<open>beta\<close> when the host name contains \<open>staging\<close> or the first
  local-storage key that starts with \<open>beta_enabled_\<close> holds \<open>true\<close>, and passes
  through otherwise.
\<close>

theorem useFeatureFlag_resolves:
  "(flagKey \<noteq> ''navigation_banner'' \<longrightarrow>
      (ordinaryName flagKey \<longrightarrow>
         flagValue (useFeatureFlag (Some win) sdk flags flagKey)
           = passedThrough (flagSource win sdk flags flagKey)) \<and>
      useFeatureFlag (Some (win \<lparr> hostname := h, localStorageItems := items \<rparr>)) sdk flags flagKey
        = useFeatureFlag (Some win) sdk flags flagKey) \<and>
   (isStaging (Some win) \<or> getBetaFromStorage (Some win) \<longrightarrow>
      flagValue (useFeatureFlag (Some win) sdk flags ''navigation_banner'') = Some (Str ''beta'')) \<and>
   (\<not> isStaging (Some win) \<and> \<not> getBetaFromStorage (Some win) \<longrightarrow>
      flagValue (useFeatureFlag (Some win) sdk flags ''navigation_banner'')
        = passedThrough (flagSource win sdk flags ''navigation_banner'')) \<and>
   loading (useFeatureFlag (Some win) sdk flags flagKey) = False"
proof (intro conjI impI)
  assume k: "flagKey \<noteq> ''navigation_banner''"
  show "useFeatureFlag (Some (win \<lparr> hostname := h, localStorageItems := items \<rparr>)) sdk flags flagKey
        = useFeatureFlag (Some win) sdk flags flagKey"
    unfolding useFeatureFlag_def using k by (rule loadFlag_other_key)
  assume "ordinaryName flagKey"
  then show "flagValue (useFeatureFlag (Some win) sdk flags flagKey)
             = passedThrough (flagSource win sdk flags flagKey)"
    unfolding useFeatureFlag_def using k by (intro loadFlag_source) simp_all
next
  assume "isStaging (Some win) \<or> getBetaFromStorage (Some win)"
  then show "flagValue (useFeatureFlag (Some win) sdk flags ''navigation_banner'') = Some (Str ''beta'')"
    by (auto simp: useFeatureFlag_def loadFlag_def)
next
  assume "\<not> isStaging (Some win) \<and> \<not> getBetaFromStorage (Some win)"
  then show "flagValue (useFeatureFlag (Some win) sdk flags ''navigation_banner'')
             = passedThrough (flagSource win sdk flags ''navigation_banner'')"
    unfolding useFeatureFlag_def
    by (intro loadFlag_source ordinaryName_navigation_banner) simp
next
  show "loading (useFeatureFlag (Some win) sdk flags flagKey) = False"
    unfolding useFeatureFlag_def by (rule loadFlag_loading)
qed

theorem useFeatureFlag_resolves_witness:
  "''new_editor'' \<noteq> ''navigation_banner'' \<and> ordinaryName ''new_editor'' \<and>
   flagValue (useFeatureFlag (Some stagingWindow) onlineSdk exampleFlags ''new_editor'')
     = Some (Str ''on'') \<and>
   isStaging (Some stagingWindow) \<and>
   flagValue (useFeatureFlag (Some stagingWindow) onlineSdk exampleFlags ''navigation_banner'')
     = Some (Str ''beta'') \<and>
   \<not> isStaging (Some productionWindow) \<and> \<not> getBetaFromStorage (Some productionWindow) \<and>
   flagValue (useFeatureFlag (Some productionWindow) onlineSdk exampleFlags ''navigation_banner'')
     = Some (Str ''control'')"
proof -
  have b: "\<not> getBetaFromStorage (Some productionWindow)"
    by (simp add: getBetaFromStorage_def productionWindow_def startsWith_def)
  have o: "ordinaryName ''new_editor''"
    by (simp add: ordinaryName_def objectPrototypeKeys_def)
  have s1: "flagSource stagingWindow onlineSdk exampleFlags ''new_editor'' = Some ''on''"
    by (simp add: flagSource_def stagingWindow_def fetch_online_example)
  have s2: "flagSource productionWindow onlineSdk exampleFlags ''navigation_banner'' = Some ''control''"
    by (simp add: flagSource_def productionWindow_def fetch_online_example)
  from useFeatureFlag_resolves[of "''new_editor''" stagingWindow onlineSdk exampleFlags]
       useFeatureFlag_resolves[of "''navigation_banner''" productionWindow onlineSdk exampleFlags]
       isStaging_stagingWindow not_isStaging_productionWindow b o s1 s2
  show ?thesis
    by (simp add: passedThrough_def)
qed

lemma litAt_Cons: "litAt (l # lit) (c # cs) = (canon c = canon l \<and> litAt lit cs)"
  by (auto simp: litAt_def)
lemma litAt_Nil: "litAt [] s = True"
  by (auto simp: litAt_def)
lemma litAt_Cons_Nil: "litAt (l # lit) [] = False"
  by (auto simp: litAt_def)

lemma litAt_iff:
  "litAt lit s \<longleftrightarrow> (\<exists>w post. s = w @ post \<and> map canon w = map canon lit)"
proof
  assume "litAt lit s"
  then have "s = take (length lit) s @ drop (length lit) s \<and>
             map canon (take (length lit) s) = map canon lit"
    by (simp add: litAt_def)
  then show "\<exists>w post. s = w @ post \<and> map canon w = map canon lit" by blast
next
  assume "\<exists>w post. s = w @ post \<and> map canon w = map canon lit"
  then obtain w post where s: "s = w @ post" and w: "map canon w = map canon lit" by blast
  from w have "length w = length lit" by (rule map_eq_imp_length_eq)
  with s w show "litAt lit s" by (simp add: litAt_def)
qed

lemma litAt_append:
  "map canon w = map canon lit \<Longrightarrow> litAt lit (w @ post) \<and> drop (length lit) (w @ post) = post"
  using map_eq_imp_length_eq[of canon w canon lit] by (simp add: litAt_def)

lemma litAt_split:
  "litAt lit s \<Longrightarrow> s = take (length lit) s @ drop (length lit) s \<and>
     map canon (take (length lit) s) = map canon lit"
  by (simp add: litAt_def)

subsection \<open>execAll\<close>

lemma execAll_Nil_iff:
  assumes "m [] = None"
  shows "execAll m 0 s = [] \<longleftrightarrow> (\<forall>pre suf. s = pre @ suf \<longrightarrow> m suf = None)"
proof (induction s)
  case Nil
  with assms show ?case by simp
next
  case (Cons c cs)
  show ?case
  proof (cases "m (c # cs)")
    case None
    have "(\<forall>pre suf. c # cs = pre @ suf \<longrightarrow> m suf = None)
          \<longleftrightarrow> (\<forall>pre suf. cs = pre @ suf \<longrightarrow> m suf = None)"
      using None by (auto simp: Cons_eq_append_conv)
    with None Cons.IH show ?thesis by simp
  next
    case (Some a)
    then have "\<not> (\<forall>pre suf. c # cs = pre @ suf \<longrightarrow> m suf = None)"
      by (metis append_Nil option.distinct(1))
    with Some show ?thesis by (simp split: prod.splits)
  qed
qed

lemma execAll_sound:
  "(t, g) \<in> set (execAll m k s) \<Longrightarrow>
   \<exists>pre suf n. s = pre @ suf \<and> m suf = Some (n, g) \<and> t = take n suf"
proof (induction s arbitrary: k)
  case Nil
  then show ?case by simp
next
  case (Cons c cs)
  have step: "\<exists>pre suf n. c # cs = pre @ suf \<and> m suf = Some (n, g) \<and> t = take n suf"
    if "(t, g) \<in> set (execAll m j cs)" for j
  proof -
    from Cons.IH[OF that] obtain pre suf n where
      "cs = pre @ suf" "m suf = Some (n, g)" "t = take n suf" by blast
    then have "c # cs = (c # pre) @ suf \<and> m suf = Some (n, g) \<and> t = take n suf" by simp
    then show ?thesis by blast
  qed
  show ?case
  proof (cases "0 < k")
    case True
    with Cons.prems step show ?thesis by simp
  next
    case False
    show ?thesis
    proof (cases "m (c # cs)")
      case None
      with False Cons.prems step show ?thesis by simp
    next
      case (Some a)
      obtain n g' where a: "a = (n, g')" by (cases a)
      with Some False Cons.prems
      consider "t = take n (c # cs) \<and> g = g'" | "(t, g) \<in> set (execAll m (n - 1) cs)"
        by auto
      then show ?thesis
      proof cases
        case 1
        with Some a have "c # cs = [] @ (c # cs) \<and> m (c # cs) = Some (n, g) \<and> t = take n (c # cs)"
          by simp
        then show ?thesis by blast
      next
        case 2
        then show ?thesis by (rule step)
      qed
    qed
  qed
qed

lemma execAll_first:
  "m (c # cs) = Some (n, g) \<Longrightarrow> execAll m 0 (c # cs) = (take n (c # cs), g) # execAll m (n - 1) cs"
  by simp

lemma buildAt_iff: "buildAt suf \<noteq> None \<longleftrightarrow> failedToCompileAt suf"
  by (simp only: buildAt_def failedToCompileAt_def litAt_iff split: if_splits) simp

lemma buildAt_Nil: "buildAt [] = None"
  by (simp add: buildAt_def litAt_def)

lemma depAt_Nil: "depAt [] = None"
  by (simp add: depAt_def litAt_def)

lemma eslintAt_Nil: "eslintAt [] = None"
  by (simp add: eslintAt_def litAt_def)

lemma takeWhile_not_quote:
  "\<forall>c \<in> set nm. \<not> isQuote c \<Longrightarrow> isQuote q \<Longrightarrow>
   takeWhile (\<lambda>c. \<not> isQuote c) (nm @ q # post) = nm \<and>
   dropWhile (\<lambda>c. \<not> isQuote c) (nm @ q # post) = q # post"
  by (simp add: takeWhile_append2 dropWhile_append2)

text \<open>The body of \<open>depAt\<close>, for any keyword.\<close>

lemma quoted_after_keyword:
  "(if litAt lit suf then
      (case drop (length lit) suf of
         [] \<Rightarrow> None
       | q # r \<Rightarrow>
           if isQuote q then
             (let nm = takeWhile (\<lambda>c. \<not> isQuote c) r;
                  rest = dropWhile (\<lambda>c. \<not> isQuote c) r
              in if nm \<noteq> [] \<and> rest \<noteq> [] then Some (length lit + 1 + length nm + 1, nm)
                 else None)
           else None)
    else None) = Some (n, nm)
   \<longleftrightarrow>
   (\<exists>kw q1 q2 post.
        suf = kw @ [q1] @ nm @ [q2] @ post \<and> map canon kw = map canon lit \<and>
        isQuote q1 \<and> isQuote q2 \<and> nm \<noteq> [] \<and> (\<forall>c \<in> set nm. \<not> isQuote c)) \<and>
   n = length lit + 1 + length nm + 1"
  (is "?body = Some (n, nm) \<longleftrightarrow> ?spec \<and> ?len")
proof
  assume d: "?body = Some (n, nm)"
  then have lit: "litAt lit suf"
    by (simp split: if_splits)
  let ?kw = "take (length lit) suf"
  from litAt_split[OF lit] have suf: "suf = ?kw @ drop (length lit) suf"
    and kw: "map canon ?kw = map canon lit" by simp_all
  from d lit obtain q r where qr: "drop (length lit) suf = q # r" and q: "isQuote q"
    by (auto split: list.splits if_splits)
  let ?nm = "takeWhile (\<lambda>c. \<not> isQuote c) r"
  let ?rest = "dropWhile (\<lambda>c. \<not> isQuote c) r"
  from d lit qr q have nm: "nm = ?nm" "?nm \<noteq> []" "?rest \<noteq> []" and n: ?len
    by (auto simp: Let_def split: if_splits)
  from nm(3) obtain q2 post where rest: "?rest = q2 # post" by (cases ?rest) auto
  then have q2: "isQuote q2" using hd_dropWhile[of "\<lambda>c. \<not> isQuote c" r] by auto
  have r: "r = nm @ q2 # post"
    using rest nm(1) takeWhile_dropWhile_id[of "\<lambda>c. \<not> isQuote c" r] by simp
  have nq: "\<forall>c \<in> set nm. \<not> isQuote c" using nm(1) by (auto dest: set_takeWhileD)
  from suf qr r have "suf = ?kw @ [q] @ nm @ [q2] @ post" by simp
  with kw q q2 nm nq have ?spec by blast
  with n show "?spec \<and> ?len" by simp
next
  assume "?spec \<and> ?len"
  then obtain kw q1 q2 post where
    suf: "suf = kw @ [q1] @ nm @ [q2] @ post" and
    kw: "map canon kw = map canon lit" and
    q: "isQuote q1" "isQuote q2" and nm: "nm \<noteq> []" "\<forall>c \<in> set nm. \<not> isQuote c" and
    n: ?len
    by blast
  from litAt_append[OF kw, of "[q1] @ nm @ [q2] @ post"] suf
  have lit: "litAt lit suf" and dr: "drop (length lit) suf = q1 # nm @ q2 # post"
    by simp_all
  from takeWhile_not_quote[OF nm(2) q(2), of post]
  show "?body = Some (n, nm)"
    using lit dr q nm n by (simp add: Let_def)
qed

lemma length_kwDep: "length ''Cannot find module '' = 19"
  by simp

lemma depAt_Some_iff:
  "depAt suf = Some (n, nm) \<longleftrightarrow> quotedModuleAt nm suf \<and> n = 19 + 1 + length nm + 1"
  unfolding depAt_def quotedModuleAt_def
  using quoted_after_keyword[of "''Cannot find module ''" suf n nm, unfolded length_kwDep]
  by blast

lemma depAt_iff: "depAt suf \<noteq> None \<longleftrightarrow> (\<exists>nm. quotedModuleAt nm suf)"
proof
  assume "depAt suf \<noteq> None"
  then obtain n nm where "depAt suf = Some (n, nm)" by auto
  then show "\<exists>nm. quotedModuleAt nm suf" using depAt_Some_iff by blast
next
  assume "\<exists>nm. quotedModuleAt nm suf"
  then obtain nm where "quotedModuleAt nm suf" by blast
  then have "depAt suf = Some (19 + 1 + length nm + 1, nm)" by (simp only: depAt_Some_iff)
  then show "depAt suf \<noteq> None" by simp
qed

lemma colon_not_digit: "\<not> isDigit CHR '':''"
  by (simp add: isDigit_def)

lemma takeWhile_digits:
  "\<forall>c \<in> set d. isDigit c \<Longrightarrow>
   takeWhile isDigit (d @ CHR '':'' # rest) = d \<and>
   dropWhile isDigit (d @ CHR '':'' # rest) = CHR '':'' # rest"
  by (simp add: takeWhile_append2 dropWhile_append2 colon_not_digit)

text \<open>The body of \<open>lineNumAt\<close>, for any keyword.\<close>

lemma number_after_keyword:
  "(if litAt lit s then
      (let d1 = takeWhile isDigit (drop (length lit) s);
           r1 = dropWhile isDigit (drop (length lit) s)
       in if d1 = [] then None
          else (case r1 of
                  [] \<Rightarrow> None
                | c # r2 \<Rightarrow>
                    if c = CHR '':'' then
                      (let d2 = takeWhile isDigit r2
                       in if d2 = [] then None
                          else Some (length lit + length d1 + 1 + length d2))
                    else None))
    else None) \<noteq> None
   \<longleftrightarrow>
   (\<exists>ln d1 d2 post.
        s = ln @ d1 @ [CHR '':''] @ d2 @ post \<and> map canon ln = map canon lit \<and>
        d1 \<noteq> [] \<and> (\<forall>c \<in> set d1. isDigit c) \<and>
        d2 \<noteq> [] \<and> (\<forall>c \<in> set d2. isDigit c))"
  (is "?body \<noteq> None \<longleftrightarrow> ?spec")
proof
  assume d: "?body \<noteq> None"
  then have lit: "litAt lit s"
    by (simp split: if_splits)
  let ?ln = "take (length lit) s"
  let ?r = "drop (length lit) s"
  let ?d1 = "takeWhile isDigit ?r"
  let ?r1 = "dropWhile isDigit ?r"
  from litAt_split[OF lit] have s: "s = ?ln @ ?r"
    and ln: "map canon ?ln = map canon lit" by simp_all
  from d lit have d1: "?d1 \<noteq> []"
    by (auto simp: Let_def split: if_splits)
  from d lit d1 obtain r2 where r1: "?r1 = CHR '':'' # r2"
    by (auto simp: Let_def split: if_splits list.splits)
  let ?d2 = "takeWhile isDigit r2"
  from d lit d1 r1 have d2: "?d2 \<noteq> []"
    by (auto simp: Let_def split: if_splits)
  have "?r = ?d1 @ ?r1" by simp
  also have "\<dots> = ?d1 @ [CHR '':''] @ ?d2 @ dropWhile isDigit r2"
    using r1 by simp
  finally have "s = ?ln @ ?d1 @ [CHR '':''] @ ?d2 @ dropWhile isDigit r2"
    using s by metis
  moreover have "\<forall>c \<in> set ?d1. isDigit c" "\<forall>c \<in> set ?d2. isDigit c"
    by (auto dest: set_takeWhileD)
  ultimately show ?spec using ln d1 d2 by blast
next
  assume ?spec
  then obtain ln d1 d2 post where
    s: "s = ln @ d1 @ [CHR '':''] @ d2 @ post" and ln: "map canon ln = map canon lit" and
    d1: "d1 \<noteq> []" "\<forall>c \<in> set d1. isDigit c" and d2: "d2 \<noteq> []" "\<forall>c \<in> set d2. isDigit c"
    by blast
  from litAt_append[OF ln, of "d1 @ [CHR '':''] @ d2 @ post"] s
  have lit: "litAt lit s" and dr: "drop (length lit) s = d1 @ CHR '':'' # d2 @ post"
    by simp_all
  have t2: "takeWhile isDigit (d2 @ post) \<noteq> []"
    using d2 by (cases d2) auto
  from takeWhile_digits[OF d1(2), of "d2 @ post"] lit dr d1 t2
  show "?body \<noteq> None" by (simp add: Let_def)
qed

lemma length_kwLine: "length ''Line '' = 5"
  by simp

lemma lineNumAt_iff: "lineNumAt t \<noteq> None \<longleftrightarrow> lineNumber t"
  unfolding lineNumAt_def lineNumber_def
  using number_after_keyword[of "''Line ''" t, unfolded length_kwLine]
  by blast

lemma lazyDots_iff:
  "lazyDots t \<noteq> None \<longleftrightarrow>
     (\<exists>mid rest. t = mid @ rest \<and> (\<forall>c \<in> set mid. \<not> lineTerminator c) \<and> lineNumber rest)"
proof (induction t)
  case Nil
  have "lazyDots [] \<noteq> None \<longleftrightarrow> lineNumber []"
    using lineNumAt_iff[of "[]"] by simp
  then show ?case by simp
next
  case (Cons c cs)
  show ?case
  proof (cases "lineNumAt (c # cs)")
    case (Some n)
    then have "lineNumber (c # cs)" using lineNumAt_iff[of "c # cs"] by simp
    then have "c # cs = [] @ (c # cs) \<and> (\<forall>x \<in> set []. \<not> lineTerminator x) \<and> lineNumber (c # cs)"
      by simp
    then have "\<exists>mid rest. c # cs = mid @ rest \<and> (\<forall>x \<in> set mid. \<not> lineTerminator x) \<and> lineNumber rest"
      by blast
    with Some show ?thesis by simp
  next
    case None
    then have nl: "\<not> lineNumber (c # cs)" using lineNumAt_iff[of "c # cs"] by simp
    have split: "(\<exists>mid rest. c # cs = mid @ rest \<and> (\<forall>x \<in> set mid. \<not> lineTerminator x) \<and> lineNumber rest)
          \<longleftrightarrow> \<not> lineTerminator c \<and>
              (\<exists>mid rest. cs = mid @ rest \<and> (\<forall>x \<in> set mid. \<not> lineTerminator x) \<and> lineNumber rest)"
      (is "?L \<longleftrightarrow> ?R")
    proof
      assume ?L
      then obtain mid rest where m: "c # cs = mid @ rest" "\<forall>x \<in> set mid. \<not> lineTerminator x"
        "lineNumber rest" by blast
      with nl have "mid \<noteq> []" by auto
      then obtain mid' where mid: "mid = c # mid'" and cs: "cs = mid' @ rest"
        using m(1) by (cases mid) auto
      with m show ?R by auto
    next
      assume ?R
      then obtain mid rest where "\<not> lineTerminator c" "cs = mid @ rest"
        "\<forall>x \<in> set mid. \<not> lineTerminator x" "lineNumber rest" by blast
      then have "c # cs = (c # mid) @ rest \<and> (\<forall>x \<in> set (c # mid). \<not> lineTerminator x) \<and> lineNumber rest"
        by simp
      then show ?L by blast
    qed
    from None Cons.IH show ?thesis by (simp add: split)
  qed
qed

lemma length_kwEslint: "length ''[eslint]'' = 8"
  by simp

lemma eslintAt_split:
  "eslintAt suf \<noteq> None \<longleftrightarrow>
     (\<exists>tag mid t. suf = tag @ mid @ t \<and> map canon tag = map canon ''[eslint]'' \<and>
        (\<forall>c \<in> set mid. \<not> lineTerminator c) \<and> lineNumber t)"
  (is "_ \<longleftrightarrow> ?spec")
proof
  assume e: "eslintAt suf \<noteq> None"
  then have lit: "litAt ''[eslint]'' suf" and lz: "lazyDots (drop 8 suf) \<noteq> None"
    by (auto simp only: eslintAt_def split: if_splits)
  from litAt_split[OF lit, unfolded length_kwEslint]
  have suf: "suf = take 8 suf @ drop 8 suf"
    and tag: "map canon (take 8 suf) = map canon ''[eslint]''" by blast+
  from lz obtain mid t where "drop 8 suf = mid @ t" "\<forall>c \<in> set mid. \<not> lineTerminator c"
    "lineNumber t" using lazyDots_iff by blast
  with suf tag have "suf = take 8 suf @ mid @ t \<and> map canon (take 8 suf) = map canon ''[eslint]'' \<and>
    (\<forall>c \<in> set mid. \<not> lineTerminator c) \<and> lineNumber t" by metis
  then show ?spec by blast
next
  assume ?spec
  then obtain tag mid t where suf: "suf = tag @ mid @ t"
    and tag: "map canon tag = map canon ''[eslint]''"
    and mid: "\<forall>c \<in> set mid. \<not> lineTerminator c" "lineNumber t" by blast
  from litAt_append[OF tag, of "mid @ t", unfolded length_kwEslint] suf
  have lit: "litAt ''[eslint]'' suf" and dr: "drop 8 suf = mid @ t" by simp_all
  from mid have "lazyDots (mid @ t) \<noteq> None" using lazyDots_iff by blast
  with lit dr show "eslintAt suf \<noteq> None" by (simp only: eslintAt_def) simp
qed

lemma eslintAt_iff: "eslintAt suf \<noteq> None \<longleftrightarrow> eslintLineAt suf"
  unfolding eslintLineAt_def by (rule eslintAt_split)

lemma foldl_setAdd:
  "foldl setAdd acc xs = acc @ filter (\<lambda>y. y \<notin> set acc) (firstOccurrences xs)"
proof (induction xs arbitrary: acc)
  case Nil
  then show ?case by simp
next
  case (Cons x xs)
  let ?fo = "firstOccurrences xs"
  show ?case
  proof (cases "x \<in> set acc")
    case True
    have "foldl setAdd acc (x # xs) = foldl setAdd acc xs"
      using True by (simp add: setAdd_def)
    also have "\<dots> = acc @ filter (\<lambda>y. y \<notin> set acc) ?fo"
      by (rule Cons.IH)
    also have "filter (\<lambda>y. y \<notin> set acc) ?fo
               = filter (\<lambda>y. y \<notin> set acc) (filter (\<lambda>y. y \<noteq> x) ?fo)"
      unfolding filter_filter using True by (intro filter_cong) auto
    also have "\<dots> = filter (\<lambda>y. y \<notin> set acc) (firstOccurrences (x # xs))"
      using True by simp
    finally show ?thesis .
  next
    case False
    have "foldl setAdd acc (x # xs) = foldl setAdd (acc @ [x]) xs"
      using False by (simp add: setAdd_def)
    also have "\<dots> = (acc @ [x]) @ filter (\<lambda>y. y \<notin> set (acc @ [x])) ?fo"
      by (rule Cons.IH)
    also have "filter (\<lambda>y. y \<notin> set (acc @ [x])) ?fo
               = filter (\<lambda>y. y \<notin> set acc) (filter (\<lambda>y. y \<noteq> x) ?fo)"
      unfolding filter_filter by (intro filter_cong) auto
    also have "(acc @ [x]) @ \<dots> = acc @ filter (\<lambda>y. y \<notin> set acc) (firstOccurrences (x # xs))"
      using False by simp
    finally show ?thesis .
  qed
qed

lemma newSet_firstOccurrences: "newSet xs = firstOccurrences xs"
  by (simp add: newSet_def foldl_setAdd)

lemma set_firstOccurrences: "set (firstOccurrences xs) = set xs"
  by (induction xs) auto

lemma distinct_firstOccurrences: "distinct (firstOccurrences xs)"
  by (induction xs) auto

lemma matchGlobal_None_iff: "matchGlobal m s = None \<longleftrightarrow> execAll m 0 s = []"
  by (simp add: matchGlobal_def Let_def)

lemma parseErrors_types_list:
  "map errType (parseErrors logs) =
     (if execAll eslintAt 0 logs = [] then [] else [''eslint'']) @
     (if execAll buildAt 0 logs = [] then [] else [''build'']) @
     (if execAll depAt 0 logs = [] then [] else [''dependency''])"
  by (simp add: parseErrors_def matchGlobal_def Let_def)

lemma has_type_iff: "(\<exists>e \<in> set errs. errType e = t) \<longleftrightarrow> t \<in> set (map errType errs)"
  by auto

lemma has_eslint_iff:
  "(\<exists>e \<in> set (parseErrors logs). errType e = ''eslint'') \<longleftrightarrow> execAll eslintAt 0 logs \<noteq> []"
  unfolding has_type_iff parseErrors_types_list by simp

lemma has_build_iff:
  "(\<exists>e \<in> set (parseErrors logs). errType e = ''build'') \<longleftrightarrow> execAll buildAt 0 logs \<noteq> []"
  unfolding has_type_iff parseErrors_types_list by simp

lemma has_dependency_iff:
  "(\<exists>e \<in> set (parseErrors logs). errType e = ''dependency'') \<longleftrightarrow> execAll depAt 0 logs \<noteq> []"
  unfolding has_type_iff parseErrors_types_list by simp

lemma parseErrors_types:
  "e \<in> set (parseErrors logs) \<Longrightarrow> errType e \<in> {''eslint'', ''build'', ''dependency''}"
proof -
  assume "e \<in> set (parseErrors logs)"
  then have "errType e \<in> set (map errType (parseErrors logs))" by simp
  then show ?thesis unfolding parseErrors_types_list by (auto split: if_splits)
qed

lemma parseErrors_distinct_types: "distinct (map errType (parseErrors logs))"
  unfolding parseErrors_types_list by simp

lemma dependency_matches:
  assumes "e \<in> set (parseErrors logs)" and "errType e = ''dependency''"
  shows "matches e = newSet (moduleNames logs)"
proof -
  let ?A = "case matchGlobal eslintAt logs of None \<Rightarrow> []
            | Some ms \<Rightarrow> [\<lparr> errType = ''eslint'', matches = ms \<rparr>]"
  let ?B = "case matchGlobal buildAt logs of None \<Rightarrow> []
            | Some ms \<Rightarrow> [\<lparr> errType = ''build'', matches = ms \<rparr>]"
  let ?C = "if 0 < length (moduleNames logs)
            then [\<lparr> errType = ''dependency'', matches = newSet (moduleNames logs) \<rparr>] else []"
  have p: "parseErrors logs = ?A @ ?B @ ?C"
    by (simp add: parseErrors_def Let_def moduleNames_def)
  have a: "x \<in> set ?A \<Longrightarrow> errType x = ''eslint''" for x
    by (cases "matchGlobal eslintAt logs") auto
  have b: "x \<in> set ?B \<Longrightarrow> errType x = ''build''" for x
    by (cases "matchGlobal buildAt logs") auto
  from assms(1) p consider "e \<in> set ?A" | "e \<in> set ?B" | "e \<in> set ?C"
    by (metis Un_iff set_append)
  then show ?thesis
  proof cases
    case 1
    from a[OF 1] assms(2) show ?thesis by simp
  next
    case 2
    from b[OF 2] assms(2) show ?thesis by simp
  next
    case 3
    then show ?thesis by (simp split: if_splits)
  qed
qed

lemma exec_nonempty_iff:
  assumes "m [] = None"
  shows "execAll m 0 logs \<noteq> [] \<longleftrightarrow> (\<exists>pre suf. logs = pre @ suf \<and> m suf \<noteq> None)"
proof -
  from execAll_Nil_iff[of m logs] assms
  have "(execAll m 0 logs = []) = (\<forall>pre suf. logs = pre @ suf \<longrightarrow> m suf = None)"
    by simp
  then show ?thesis by simp
qed

lemma exec_eslint_iff: "execAll eslintAt 0 logs \<noteq> [] \<longleftrightarrow> matchesEslint logs"
  unfolding matchesEslint_def eslintAt_iff[symmetric]
  by (rule exec_nonempty_iff[of eslintAt logs, OF eslintAt_Nil])

lemma exec_build_iff: "execAll buildAt 0 logs \<noteq> [] \<longleftrightarrow> matchesBuild logs"
  unfolding matchesBuild_def buildAt_iff[symmetric]
  by (rule exec_nonempty_iff[of buildAt logs, OF buildAt_Nil])

lemma exec_dep_iff: "execAll depAt 0 logs \<noteq> [] \<longleftrightarrow> matchesDep logs"
proof -
  have "matchesDep logs \<longleftrightarrow> (\<exists>pre suf. logs = pre @ suf \<and> depAt suf \<noteq> None)"
    unfolding matchesDep_def depAt_iff by blast
  with exec_nonempty_iff[of depAt logs, OF depAt_Nil] show ?thesis by simp
qed

lemma moduleNames_occur:
  assumes "nm \<in> set (moduleNames logs)"
  shows "\<exists>pre suf. logs = pre @ suf \<and> quotedModuleAt nm suf"
proof -
  from assms obtain t where "(t, nm) \<in> set (execAll depAt 0 logs)"
    by (auto simp: moduleNames_def)
  from execAll_sound[OF this] obtain pre suf n where
    l: "logs = pre @ suf" and d: "depAt suf = Some (n, nm)" by blast
  from d have "quotedModuleAt nm suf" by (simp only: depAt_Some_iff)
  with l show ?thesis by blast
qed

lemmas litAt_eval = litAt_Cons litAt_Nil litAt_Cons_Nil canon_def

lemma depAt_doubleQuotedLog: "depAt doubleQuotedLog = Some (26, ''react'')"
  by (simp add: doubleQuotedLog_def depAt_def litAt_eval isQuote_def dq_def sq_def)

lemma doubleQuotedLog_dependency:
  "\<exists>e \<in> set (parseErrors doubleQuotedLog). errType e = ''dependency''"
proof -
  have "doubleQuotedLog = [] @ doubleQuotedLog \<and> depAt doubleQuotedLog \<noteq> None"
    by (simp add: depAt_doubleQuotedLog)
  then have "\<exists>pre suf. doubleQuotedLog = pre @ suf \<and> depAt suf \<noteq> None" by blast
  with exec_nonempty_iff[of depAt doubleQuotedLog, OF depAt_Nil]
  have "execAll depAt 0 doubleQuotedLog \<noteq> []" by simp
  with has_dependency_iff[of doubleQuotedLog] show ?thesis by blast
qed

lemma doubleQuotedLog_no_single_quote: "sq \<notin> set doubleQuotedLog"
  by (simp add: doubleQuotedLog_def sq_def dq_def)

lemma mentions_needs_single_quote: "mentionsMissingModule logs \<Longrightarrow> sq \<in> set logs"
  by (auto simp: mentionsMissingModule_def)

text \<open>
  Claim C5, as stated, fails in its third part. The log
  \<open>Cannot find module "react"\<close>, with double quotes, yields an entry of type
  \<open>dependency\<close>, and nowhere contains \<open>Cannot find module '<name>'\<close>.
\<close>

theorem dependency_entry_without_single_quotes:
  "(\<exists>e \<in> set (parseErrors doubleQuotedLog). errType e = ''dependency'') \<and>
   \<not> mentionsMissingModule doubleQuotedLog"
  using doubleQuotedLog_dependency doubleQuotedLog_no_single_quote mentions_needs_single_quote
  by blast

text \<open>
  Claim C5, amended. For every log, \<open>parseErrors\<close> returns an entry of type
  \<open>eslint\<close> exactly when the log matches \<open>\[eslint\].*?Line \d+:\d+\<close> ignoring
  case, an entry of type \<open>build\<close> exactly when it contains \<open>Failed to compile\<close>
  ignoring case, and an entry of type \<open>dependency\<close> exactly when it contains,
  ignoring case, \<open>Cannot find module\<close> and a space followed by a name of one or more
  characters other than quotes between two quotes, each single or double. The matches of
  the dependency entry are the names captured from left to right, each once, in the order
  of their first occurrence, and each of them stands in the log in that form. No entry has
  another type, and no two entries have the same type.
\<close>

theorem parseErrors_entry_types:
  "((\<exists>e \<in> set (parseErrors logs). errType e = ''eslint'') \<longleftrightarrow> matchesEslint logs) \<and>
   ((\<exists>e \<in> set (parseErrors logs). errType e = ''build'') \<longleftrightarrow> matchesBuild logs) \<and>
   ((\<exists>e \<in> set (parseErrors logs). errType e = ''dependency'') \<longleftrightarrow> matchesDep logs) \<and>
   (\<forall>e \<in> set (parseErrors logs). errType e = ''dependency'' \<longrightarrow>
      matches e = firstOccurrences (moduleNames logs) \<and> distinct (matches e) \<and>
      set (matches e) = set (moduleNames logs)) \<and>
   (\<forall>nm \<in> set (moduleNames logs). \<exists>pre suf. logs = pre @ suf \<and> quotedModuleAt nm suf) \<and>
   (\<forall>e \<in> set (parseErrors logs). errType e \<in> {''eslint'', ''build'', ''dependency''}) \<and>
   distinct (map errType (parseErrors logs))"
proof -
  have m: "matches e = firstOccurrences (moduleNames logs) \<and> distinct (matches e) \<and>
      set (matches e) = set (moduleNames logs)"
    if "e \<in> set (parseErrors logs)" "errType e = ''dependency''" for e
    using dependency_matches[OF that]
    by (simp add: newSet_firstOccurrences distinct_firstOccurrences set_firstOccurrences)
  show ?thesis
    using m moduleNames_occur parseErrors_types parseErrors_distinct_types
    by (simp only: has_eslint_iff has_build_iff has_dependency_iff
          exec_eslint_iff exec_build_iff exec_dep_iff) blast
qed

lemma eslint_none_singleQuotedLog: "execAll eslintAt 0 singleQuotedLog = []"
  by (simp add: singleQuotedLog_def eslintAt_def litAt_eval)

lemma build_none_singleQuotedLog: "execAll buildAt 0 singleQuotedLog = []"
  by (simp add: singleQuotedLog_def buildAt_def litAt_eval)

lemma dep_singleQuotedLog: "execAll depAt 0 singleQuotedLog = [(singleQuotedLog, ''ab'')]"
  by (simp add: singleQuotedLog_def depAt_def litAt_eval isQuote_def dq_def sq_def)

lemma parseErrors_singleQuotedLog:
  "parseErrors singleQuotedLog = [\<lparr> errType = ''dependency'', matches = [''ab''] \<rparr>]"
  by (simp add: parseErrors_def matchGlobal_def eslint_none_singleQuotedLog
        build_none_singleQuotedLog dep_singleQuotedLog newSet_def setAdd_def)

theorem parseErrors_entry_types_witness:
  "parseErrors singleQuotedLog = [\<lparr> errType = ''dependency'', matches = [''ab''] \<rparr>] \<and>
   matchesDep singleQuotedLog \<and> \<not> matchesEslint singleQuotedLog \<and>
   \<not> matchesBuild singleQuotedLog \<and> firstOccurrences (moduleNames singleQuotedLog) = [''ab'']"
  using parseErrors_entry_types[of singleQuotedLog]
  by (simp add: parseErrors_singleQuotedLog)

section \<open>Properties of the deploy script\<close>

subsection \<open>What each step adds to the trace\<close>

lemma grows_refl: "grows P w w"
  by (simp add: grows_def)

lemma grows_trans: "grows P w w1 \<Longrightarrow> grows P w1 w2 \<Longrightarrow> grows P w w2"
  by (auto simp: grows_def)

lemma grows_weaken: "grows P w w' \<Longrightarrow> (\<And>c. P c \<Longrightarrow> Q c) \<Longrightarrow> grows Q w w'"
  by (auto simp: grows_def)

lemma grows_issue: "P c \<Longrightarrow> grows P w (issue c w)"
  by (simp add: grows_def issue_def)

lemma grows_run: "P c \<Longrightarrow> grows P w (snd (run e c w))"
  by (simp add: run_def grows_issue)

lemma grows_newCommands:
  "grows P w w' \<Longrightarrow> trace w' = trace w @ newCommands w w' \<and> (\<forall>c \<in> set (newCommands w w'). P c)"
  by (auto simp: grows_def newCommands_def)

lemma newCommands_append:
  "trace w1 = trace w @ cs \<Longrightarrow> trace w2 = trace w1 @ ds \<Longrightarrow> newCommands w w2 = cs @ ds"
  by (simp add: newCommands_def)

lemma now_issue: "now (issue c w) = Suc (now w)"
  by (simp add: now_def issue_def)

lemma grows_now: "grows P w w' \<Longrightarrow> now w \<le> now w'"
  by (auto simp: grows_def now_def)

lemma quiet_simps:
  "quiet GhVersion" "quiet GitBranchShowCurrent" "quiet FirebasePrintAccessToken"
  "quiet HttpGetRemoteConfig" "quiet GhRunList" "quiet GitStatusPorcelain" "quiet GitDiffStat"
  "quiet GitAddAll" "quiet (GitCommit m)" "quiet GitPush" "quiet (GhRunViewLog n)"
  "quiet EslintFix" "quiet (NpmInstall p)"
  "\<not> quiet (HttpPutRemoteConfig c)" "\<not> quiet (GhRunView n)" "\<not> quiet GitRevParseHead"
  by (simp_all add: quiet_def isPut_def isRunView_def)

lemma getAccessToken_deploy_grows:
  "getAccessToken_deploy e w = (r, w') \<Longrightarrow> w' = issue FirebasePrintAccessToken w"
  by (auto simp: getAccessToken_deploy_def split: option.splits if_splits)

lemma getRemoteConfig_result:
  assumes "getRemoteConfig e w = (r, w')"
  shows "grows (\<lambda>c. c = FirebasePrintAccessToken \<or> c = HttpGetRemoteConfig) w w' \<and>
         trace w' \<noteq> trace w \<and>
         (\<forall>cfg. r = Inr cfg \<longrightarrow> cfg = remote w)"
proof (cases "getAccessToken_deploy e w")
  case (Pair t w1)
  then have w1: "w1 = issue FirebasePrintAccessToken w"
    by (rule getAccessToken_deploy_grows)
  show ?thesis
  proof (cases t)
    case (Inl err)
    with assms Pair w1 show ?thesis
      by (auto simp: getRemoteConfig_def grows_def issue_def)
  next
    case (Inr token)
    with assms Pair w1 show ?thesis
      by (auto simp: getRemoteConfig_def grows_def issue_def split: if_splits)
  qed
qed

lemma validateRemoteConfig_result:
  assumes "validateRemoteConfig e w = (r, w')"
  shows "grows (\<lambda>c. c = FirebasePrintAccessToken \<or> c = HttpGetRemoteConfig) w w' \<and>
         (\<forall>errs. r = Inr errs \<longrightarrow>
            (\<exists>l. localFile e = Some l \<and> errs = diffRemoteConfig l (remote w)))"
proof (cases "localFile e")
  case None
  with assms show ?thesis by (auto simp: validateRemoteConfig_def grows_refl)
next
  case (Some l)
  obtain g w1 where g: "getRemoteConfig e w = (g, w1)" by (cases "getRemoteConfig e w")
  from getRemoteConfig_result[OF g] assms Some g show ?thesis
    by (cases g) (auto simp: validateRemoteConfig_def)
qed

lemma setRemoteConfig_result:
  assumes "setRemoteConfig e config w = (r, w')"
  shows "(\<exists>cs. trace w' = trace w @ cs \<and>
            (\<forall>c \<in> set cs. c = FirebasePrintAccessToken \<or> c = HttpPutRemoteConfig config)) \<and>
         (remote w' = remote w \<or> remote w' = config) \<and>
         (r = Inr () \<longrightarrow>
            trace w' = trace w @ [FirebasePrintAccessToken, HttpPutRemoteConfig config] \<and>
            remote w' = config)"
proof (cases "getAccessToken_deploy e w")
  case (Pair t w1)
  then have w1: "w1 = issue FirebasePrintAccessToken w"
    by (rule getAccessToken_deploy_grows)
  show ?thesis
  proof (cases t)
    case (Inl err)
    with assms Pair w1 show ?thesis
      by (auto simp: setRemoteConfig_def issue_def)
  next
    case (Inr token)
    with assms Pair w1 show ?thesis
      by (auto simp: setRemoteConfig_def issue_def split: if_splits)
  qed
qed

lemma syncRemoteConfig_result:
  assumes "syncRemoteConfig e w = (r, w')"
  shows "(\<exists>cs. trace w' = trace w @ cs \<and> (\<forall>c \<in> set cs. preflightCommand c) \<and>
            (\<forall>c \<in> set cs. isPut c \<longrightarrow>
               (\<exists>l. localFile e = Some l \<and> c = HttpPutRemoteConfig (buildTemplate l)))) \<and>
         (r = Inr () \<longrightarrow>
            (\<exists>l. localFile e = Some l \<and>
               trace w' = trace w @ [FirebasePrintAccessToken, HttpPutRemoteConfig (buildTemplate l)] \<and>
               remote w' = buildTemplate l))"
proof (cases "localFile e")
  case None
  with assms show ?thesis by (auto simp: syncRemoteConfig_def)
next
  case (Some l)
  with assms have "setRemoteConfig e (buildTemplate l) w = (r, w')"
    by (simp add: syncRemoteConfig_def)
  from setRemoteConfig_result[OF this] obtain cs where
    cs: "trace w' = trace w @ cs"
      "\<forall>c \<in> set cs. c = FirebasePrintAccessToken \<or> c = HttpPutRemoteConfig (buildTemplate l)"
    and ok: "r = Inr () \<longrightarrow>
      trace w' = trace w @ [FirebasePrintAccessToken, HttpPutRemoteConfig (buildTemplate l)] \<and>
      remote w' = buildTemplate l"
    by blast
  have p: "preflightCommand c \<and> (isPut c \<longrightarrow> c = HttpPutRemoteConfig x)"
    if "c = FirebasePrintAccessToken \<or> c = HttpPutRemoteConfig x" for c x
    using that by (auto simp: preflightCommand_def isPut_def)
  from cs(2) p have "(\<forall>c \<in> set cs. preflightCommand c) \<and>
      (\<forall>c \<in> set cs. isPut c \<longrightarrow> (\<exists>l. localFile e = Some l \<and> c = HttpPutRemoteConfig (buildTemplate l)))"
    using Some by blast
  with cs(1) ok Some show ?thesis by blast
qed

lemma validateStep_no_errors:
  "validateRemoteConfig e w = (Inr [], w1) \<Longrightarrow> validateStep e w = (Inr (), w1)"
  by (simp add: validateStep_def)

lemma validateStep_errors:
  "validateRemoteConfig e w = (Inr errs, w1) \<Longrightarrow> errs \<noteq> [] \<Longrightarrow>
   validateStep e w = syncRemoteConfig e w1"
  by (simp add: validateStep_def)

lemma validateStep_trace:
  assumes "validateStep e w = (r, w')"
  shows "\<exists>cs. trace w' = trace w @ cs \<and> (\<forall>c \<in> set cs. preflightCommand c)"
proof -
  obtain v w1 where v: "validateRemoteConfig e w = (v, w1)"
    by (cases "validateRemoteConfig e w")
  from validateRemoteConfig_result[OF v]
  obtain cs where cs: "trace w1 = trace w @ cs" "\<forall>c \<in> set cs. preflightCommand c"
    by (auto simp: grows_def preflightCommand_def)
  show ?thesis
  proof (cases "\<exists>errs. v = Inr errs \<and> errs \<noteq> []")
    case True
    then obtain errs where "v = Inr errs" "errs \<noteq> []" by blast
    with v assms have "syncRemoteConfig e w1 = (r, w')"
      by (simp add: validateStep_def)
    from syncRemoteConfig_result[OF this]
    obtain ds where "trace w' = trace w1 @ ds" "\<forall>c \<in> set ds. preflightCommand c" by blast
    with cs have "trace w' = trace w @ (cs @ ds) \<and> (\<forall>c \<in> set (cs @ ds). preflightCommand c)"
      by auto
    then show ?thesis by blast
  next
    case False
    with v assms have "w' = w1"
      by (cases v) (auto simp: validateStep_def)
    with cs show ?thesis by blast
  qed
qed

lemma validateStep_nothingToSync:
  assumes "validateStep e w = (r, w')" and "nothingToSync e w"
  shows "grows (\<lambda>c. preflightCommand c \<and> \<not> isPut c) w w'"
proof -
  obtain v w1 where v: "validateRemoteConfig e w = (v, w1)"
    by (cases "validateRemoteConfig e w")
  from validateRemoteConfig_result[OF v] assms(2)
  have g: "grows (\<lambda>c. c = FirebasePrintAccessToken \<or> c = HttpGetRemoteConfig) w w1"
    and n: "\<forall>errs. v = Inr errs \<longrightarrow> errs = []"
    by (auto simp: nothingToSync_def)
  from n v assms(1) have "w' = w1"
    by (cases v) (auto simp: validateStep_def)
  with g show ?thesis
    by (auto elim!: grows_weaken simp: preflightCommand_def isPut_def)
qed

lemma preflight_trace:
  assumes "preflight e w = (r, w')"
  shows "\<exists>cs. cs \<noteq> [] \<and> trace w' = trace w @ cs \<and> (\<forall>c \<in> set cs. preflightCommand c)"
proof -
  let ?w1 = "issue GhVersion w"
  let ?w2 = "issue GitBranchShowCurrent ?w1"
  obtain v w3 where v: "validateStep e ?w2 = (v, w3)" by (cases "validateStep e ?w2")
  from validateStep_trace[OF v] obtain cs where
    cs: "trace w3 = trace ?w2 @ cs" "\<forall>c \<in> set cs. preflightCommand c" by blast
  from assms v consider "w' = ?w1" | "w' = ?w2" | "w' = w3"
    by (auto simp: preflight_def checkGhInstalled_def run_def Let_def
             split: if_splits sum.splits)
  then show ?thesis
  proof cases
    case 1
    then have "[GhVersion] \<noteq> [] \<and> trace w' = trace w @ [GhVersion] \<and>
               (\<forall>c \<in> set [GhVersion]. preflightCommand c)"
      by (simp add: issue_def preflightCommand_def)
    then show ?thesis by blast
  next
    case 2
    then have "[GhVersion, GitBranchShowCurrent] \<noteq> [] \<and>
               trace w' = trace w @ [GhVersion, GitBranchShowCurrent] \<and>
               (\<forall>c \<in> set [GhVersion, GitBranchShowCurrent]. preflightCommand c)"
      by (simp add: issue_def preflightCommand_def)
    then show ?thesis by blast
  next
    case 3
    with cs have "[GhVersion, GitBranchShowCurrent] @ cs \<noteq> [] \<and>
               trace w' = trace w @ ([GhVersion, GitBranchShowCurrent] @ cs) \<and>
               (\<forall>c \<in> set ([GhVersion, GitBranchShowCurrent] @ cs). preflightCommand c)"
      by (auto simp: issue_def preflightCommand_def)
    then show ?thesis by blast
  qed
qed

lemma preflight_nothingToSync:
  assumes "preflight e w = (r, w')" and "nothingToSync e w"
  shows "grows (\<lambda>c. preflightCommand c \<and> \<not> isPut c) w w'"
proof -
  let ?P = "\<lambda>c. preflightCommand c \<and> \<not> isPut c"
  let ?w1 = "issue GhVersion w"
  let ?w2 = "issue GitBranchShowCurrent ?w1"
  have g1: "grows ?P w ?w1"
    by (rule grows_issue) (simp add: preflightCommand_def isPut_def)
  have "grows ?P ?w1 ?w2"
    by (rule grows_issue) (simp add: preflightCommand_def isPut_def)
  with g1 have g2: "grows ?P w ?w2" by (rule grows_trans)
  obtain v w3 where v: "validateStep e ?w2 = (v, w3)" by (cases "validateStep e ?w2")
  have "nothingToSync e ?w2"
    using assms(2) by (simp add: nothingToSync_def issue_def)
  from validateStep_nothingToSync[OF v this] g2 have g3: "grows ?P w w3"
    by (blast intro: grows_trans)
  from assms v consider "w' = ?w1" | "w' = ?w2" | "w' = w3"
    by (auto simp: preflight_def checkGhInstalled_def run_def Let_def
             split: if_splits sum.splits)
  then show ?thesis using g1 g2 g3 by cases simp_all
qed

lemma grows_nonempty:
  "grows P w w1 \<Longrightarrow> grows P (issue c w1) w' \<Longrightarrow> P c \<Longrightarrow>
   \<exists>cs. cs \<noteq> [] \<and> trace w' = trace w @ cs \<and> (\<forall>x \<in> set cs. P x) \<and> remote w' = remote w"
proof -
  assume "grows P w w1" "grows P (issue c w1) w'" "P c"
  then obtain cs ds where "trace w1 = trace w @ cs" "\<forall>x \<in> set cs. P x" "remote w1 = remote w"
    "trace w' = trace (issue c w1) @ ds" "\<forall>x \<in> set ds. P x" "remote w' = remote (issue c w1)"
    unfolding grows_def by blast
  with \<open>P c\<close> have "cs @ c # ds \<noteq> [] \<and> trace w' = trace w @ (cs @ c # ds) \<and>
      (\<forall>x \<in> set (cs @ c # ds). P x) \<and> remote w' = remote w"
    by (auto simp: issue_def)
  then show ?thesis by blast
qed

lemma getLatestRunId_world: "getLatestRunId e sha w = (r, w') \<Longrightarrow> w' = issue GhRunList w"
  by (auto simp: getLatestRunId_def)

lemma awaitRunId_grows:
  "awaitRunId e sha n runId w = (r, w') \<Longrightarrow> grows quiet w w'"
proof (induction n arbitrary: runId w)
  case 0
  then show ?case by (simp add: grows_refl)
next
  case (Suc n)
  show ?case
  proof (cases "noRunId runId")
    case False
    with Suc.prems show ?thesis by (simp add: grows_refl)
  next
    case True
    obtain r1 w1 where g: "getLatestRunId e (Some sha) w = (r1, w1)"
      by (cases "getLatestRunId e (Some sha) w")
    with True Suc.prems have "awaitRunId e sha n r1 w1 = (r, w')" by simp
    from Suc.IH[OF this] have "grows quiet w1 w'" .
    moreover have "grows quiet w w1"
      using getLatestRunId_world[OF g] by (simp add: grows_issue quiet_simps)
    ultimately show ?thesis by (rule grows_trans[rotated])
  qed
qed

lemma commitAndPush_grows: "grows quiet w (commitAndPush e m w)"
  unfolding commitAndPush_def
  by (intro grows_trans[OF grows_run grows_trans[OF grows_run grows_run]]) (simp_all add: quiet_simps)

lemma startRun_trace:
  assumes "startRun e w = (r, w')"
  shows "\<exists>cs ds. trace w' = trace w @ cs @ [GitRevParseHead] @ ds \<and>
           (\<forall>c \<in> set cs. quiet c) \<and> (\<forall>c \<in> set ds. quiet c) \<and> ds \<noteq> [] \<and>
           remote w' = remote w"
proof -
  let ?w1 = "issue GhRunList w"
  let ?w2 = "issue GitStatusPorcelain ?w1"
  let ?out = "stdoutOf e (now ?w1)"
  let ?w3 = "if trim ?out \<noteq> []
             then commitAndPush e ''deploy: prepare for deployment'' (snd (run e GitDiffStat ?w2))
             else ?w2"
  let ?w4 = "issue GitRevParseHead ?w3"
  let ?sha = "trim (stdoutOf e (now ?w3))"
  let ?w5 = "issue GhRunList ?w4"
  obtain r5 where a: "awaitRunId e ?sha 12 r5 ?w5 = (r, w')"
    using assms by (auto simp: startRun_def getLatestRunId_def run_def Let_def split: prod.splits)
  have g2: "grows quiet w ?w2"
    by (intro grows_trans[OF grows_issue grows_issue]) (simp_all add: quiet_simps)
  have "grows quiet ?w2 ?w3"
    by (auto intro!: grows_refl grows_trans[OF grows_run commitAndPush_grows] simp: quiet_simps)
  with g2 have "grows quiet w ?w3" by (rule grows_trans)
  then obtain cs where cs: "trace ?w3 = trace w @ cs" "\<forall>c \<in> set cs. quiet c"
    "remote ?w3 = remote w" unfolding grows_def by blast
  from awaitRunId_grows[OF a] obtain ds where ds: "trace w' = trace ?w5 @ ds"
    "\<forall>c \<in> set ds. quiet c" "remote w' = remote ?w5" unfolding grows_def by blast
  have "trace w' = trace w @ cs @ [GitRevParseHead] @ (GhRunList # ds)"
    using cs(1) ds(1) by (simp add: issue_def)
  moreover have "\<forall>c \<in> set (GhRunList # ds). quiet c" using ds(2) by (simp add: quiet_simps)
  moreover have "remote w' = remote w" using ds(3) cs(3) by (simp add: issue_def)
  ultimately show ?thesis using cs(2) by blast
qed

lemma installPackages_grows:
  "installPackages e pkgs fixed w = (r, w') \<Longrightarrow> grows quiet w w'"
proof (induction pkgs arbitrary: fixed w)
  case Nil
  then show ?case by (simp add: grows_refl)
next
  case (Cons pkg pkgs)
  from Cons.prems have "installPackages e pkgs (fixed \<or> exitsOk e (now w)) (issue (NpmInstall pkg) w) = (r, w')"
    by (simp add: run_def)
  from Cons.IH[OF this] have "grows quiet (issue (NpmInstall pkg) w) w'" .
  moreover have "grows quiet w (issue (NpmInstall pkg) w)"
    by (rule grows_issue) (simp add: quiet_simps)
  ultimately show ?case by (rule grows_trans[rotated])
qed

lemma fixErrors_grows:
  "fixErrors e errs fixed w = (r, w') \<Longrightarrow> grows quiet w w'"
proof (induction errs arbitrary: fixed w)
  case Nil
  then show ?case by (simp add: grows_refl)
next
  case (Cons error rest)
  obtain f1 w1 where s1: "(if errType error = ''eslint''
            then (case run e EslintFix w of ((out, ok), w') \<Rightarrow> (fixed \<or> ok, w'))
            else (fixed, w)) = (f1, w1)" by fastforce
  obtain f2 w2 where s2: "(if errType error = ''dependency''
                 then installPackages e (matches error) f1 w1
                 else (f1, w1)) = (f2, w2)" by fastforce
  from s1 have g1: "grows quiet w w1"
    by (auto simp: run_def grows_refl grows_issue quiet_simps split: if_splits)
  from s2 have g2: "grows quiet w1 w2"
    by (auto simp: grows_refl dest: installPackages_grows split: if_splits)
  from Cons.prems s1 s2 have "fixErrors e rest f2 w2 = (r, w')" by simp
  from Cons.IH[OF this] g1 g2 show ?case by (blast intro: grows_trans)
qed

lemma autoFix_grows: "autoFix e errs w = (r, w') \<Longrightarrow> grows quiet w w'"
proof -
  assume a: "autoFix e errs w = (r, w')"
  obtain f w1 where f: "fixErrors e errs False w = (f, w1)" by (cases "fixErrors e errs False w")
  from fixErrors_grows[OF f] have g1: "grows quiet w w1" .
  let ?w2 = "issue GitStatusPorcelain w1"
  have g2: "grows quiet w ?w2"
    by (rule grows_trans[OF g1 grows_issue]) (simp add: quiet_simps)
  have g3: "grows quiet w (commitAndPush e m ?w2)" for m
    by (rule grows_trans[OF g2 commitAndPush_grows])
  from a f consider "w' = w1" | "w' = ?w2" | "w' = commitAndPush e ''deploy: auto-fix errors'' ?w2"
    by (auto simp: autoFix_def run_def split: if_splits)
  then show ?thesis using g1 g2 g3 by cases simp_all
qed

lemma recover_trace:
  assumes "recover e rid w = (r, w')"
  shows "\<exists>cs. cs \<noteq> [] \<and> trace w' = trace w @ cs \<and> (\<forall>c \<in> set cs. quiet c) \<and> remote w' = remote w"
proof -
  let ?w1 = "issue (GhRunViewLog rid) w"
  have "grows quiet ?w1 w'"
    using assms
    by (auto simp: recover_def getRunLogs_def Let_def grows_refl dest: autoFix_grows
             split: if_splits)
  from grows_nonempty[OF grows_refl this] show ?thesis by (simp add: quiet_simps)
qed

subsection \<open>The polling loop\<close>

lemma pollStatus_Some:
  assumes "pollStatus e rid w = Some y"
  shows "\<exists>n. trace (snd y) = trace w @ replicate (Suc n) (GhRunView rid) \<and>
             remote (snd y) = remote w \<and>
             runStatusOf e (now w + n) = Some (fst y) \<and> status (fst y) = ''completed'' \<and>
             (\<forall>k < n. \<not> completedAt e (now w + k))"
proof (rule pollStatus.raw_induct
    [where P = "\<lambda>e rid w y. \<exists>n. trace (snd y) = trace w @ replicate (Suc n) (GhRunView rid) \<and>
             remote (snd y) = remote w \<and>
             runStatusOf e (now w + n) = Some (fst y) \<and> status (fst y) = ''completed'' \<and>
             (\<forall>k < n. \<not> completedAt e (now w + k))", OF _ assms], goal_cases)
  case (1 poll e rid w y)
  let ?w1 = "issue (GhRunView rid) w"
  have tr: "trace ?w1 = trace w @ [GhRunView rid]" "remote ?w1 = remote w" "now ?w1 = Suc (now w)"
    by (simp_all add: issue_def now_def)
  show ?case
  proof (cases "completedAt e (now w)")
    case True
    then obtain r where r: "runStatusOf e (now w) = Some r" "status r = ''completed''"
      by (auto simp: completedAt_def split: option.splits)
    with 1(2) have "y = (r, ?w1)" by (simp add: getRunStatus_def)
    with r tr have "trace (snd y) = trace w @ replicate (Suc 0) (GhRunView rid) \<and>
             remote (snd y) = remote w \<and>
             runStatusOf e (now w + 0) = Some (fst y) \<and> status (fst y) = ''completed'' \<and>
             (\<forall>k < 0. \<not> completedAt e (now w + k))" by simp
    then show ?thesis by blast
  next
    case False
    with 1(2) have "poll e rid ?w1 = Some y"
      by (auto simp: getRunStatus_def completedAt_def split: option.splits if_splits)
    from 1(1)[OF this] obtain n where n:
      "trace (snd y) = trace ?w1 @ replicate (Suc n) (GhRunView rid)"
      "remote (snd y) = remote ?w1"
      "runStatusOf e (now ?w1 + n) = Some (fst y)" "status (fst y) = ''completed''"
      "\<forall>k < n. \<not> completedAt e (now ?w1 + k)" by blast
    have "\<forall>k < Suc n. \<not> completedAt e (now w + k)"
    proof (intro allI impI)
      fix k assume "k < Suc n"
      show "\<not> completedAt e (now w + k)"
      proof (cases k)
        case 0
        with False show ?thesis by simp
      next
        case (Suc j)
        with \<open>k < Suc n\<close> n(5) tr(3) show ?thesis by simp
      qed
    qed
    with n tr have "trace (snd y) = trace w @ replicate (Suc (Suc n)) (GhRunView rid) \<and>
             remote (snd y) = remote w \<and>
             runStatusOf e (now w + Suc n) = Some (fst y) \<and> status (fst y) = ''completed'' \<and>
             (\<forall>k < Suc n. \<not> completedAt e (now w + k))"
      by (simp add: replicate_app_Cons_same)
    then show ?thesis by blast
  qed
qed

lemma pollStatus_completed:
  "pollStatus e rid w = Some (r, w') \<Longrightarrow> status r = ''completed''"
  using pollStatus_Some[of e rid w "(r, w')"] by auto

lemma pollStatus_step:
  "pollStatus e rid w =
     (if completedAt e (now w)
      then Some (the (runStatusOf e (now w)), issue (GhRunView rid) w)
      else pollStatus e rid (issue (GhRunView rid) w))"
  by (subst pollStatus.simps)
     (auto simp: getRunStatus_def completedAt_def split: option.splits)

lemma pollStatus_returns:
  assumes "now w \<le> m" and "completedAt e m"
  shows "\<exists>y. pollStatus e rid w = Some y"
  using assms
proof (induction "m - now w" arbitrary: w)
  case 0
  then have "completedAt e (now w)" by simp
  then show ?case by (subst pollStatus_step) simp
next
  case (Suc d)
  show ?case
  proof (cases "completedAt e (now w)")
    case True
    then show ?thesis by (subst pollStatus_step) simp
  next
    case False
    let ?w1 = "issue (GhRunView rid) w"
    have "now ?w1 = Suc (now w)" by (simp add: issue_def now_def)
    with Suc have "d = m - now ?w1" "now ?w1 \<le> m" by simp_all
    from Suc(1)[OF this Suc(4)] False show ?thesis
      by (subst pollStatus_step) simp
  qed
qed

lemma pollStatus_never:
  assumes "\<forall>m \<ge> now w. \<not> completedAt e m"
  shows "pollStatus e rid w = None"
proof (cases "pollStatus e rid w")
  case None
  then show ?thesis .
next
  case (Some y)
  from pollStatus_Some[OF this] obtain n where
    "runStatusOf e (now w + n) = Some (fst y)" "status (fst y) = ''completed''" by blast
  then have "completedAt e (now w + n)" by (simp add: completedAt_def)
  with assms show ?thesis by simp
qed

subsection \<open>Runs of \<open>deploy\<close> that return\<close>

text \<open>
  Rule induction over the runs of \<open>deploy\<close> that return: the five ways an attempt ends
  the run, and the retry.
\<close>

lemma deploy_run_induct [consumes 1, case_names early budget norun success giveup retry]:
  assumes run: "deploy e attempt w = Some (out, w')"
    and early: "\<And>attempt w out w'. preflight e w = (Some out, w') \<Longrightarrow> P attempt w out w'"
    and budget: "\<And>attempt w w'. preflight e w = (None, w') \<Longrightarrow> MAX_ATTEMPTS < attempt \<Longrightarrow>
        P attempt w (Returned False) w'"
    and norun: "\<And>attempt w w1 runId w'. preflight e w = (None, w1) \<Longrightarrow>
        attempt \<le> MAX_ATTEMPTS \<Longrightarrow> startRun e w1 = (runId, w') \<Longrightarrow> noRunId runId \<Longrightarrow>
        P attempt w (Returned False) w'"
    and success: "\<And>attempt w w1 rid w2 r w'. preflight e w = (None, w1) \<Longrightarrow>
        attempt \<le> MAX_ATTEMPTS \<Longrightarrow> startRun e w1 = (Some rid, w2) \<Longrightarrow> rid \<noteq> 0 \<Longrightarrow>
        pollStatus e rid w2 = Some (r, w') \<Longrightarrow> conclusion r = ''success'' \<Longrightarrow>
        P attempt w (Returned True) w'"
    and giveup: "\<And>attempt w w1 rid w2 r w3 w'. preflight e w = (None, w1) \<Longrightarrow>
        attempt \<le> MAX_ATTEMPTS \<Longrightarrow> startRun e w1 = (Some rid, w2) \<Longrightarrow> rid \<noteq> 0 \<Longrightarrow>
        pollStatus e rid w2 = Some (r, w3) \<Longrightarrow> conclusion r \<noteq> ''success'' \<Longrightarrow>
        recover e rid w3 = (False, w') \<Longrightarrow> P attempt w (Returned False) w'"
    and retry: "\<And>attempt w w1 rid w2 r w3 w4 out w'. preflight e w = (None, w1) \<Longrightarrow>
        attempt \<le> MAX_ATTEMPTS \<Longrightarrow> startRun e w1 = (Some rid, w2) \<Longrightarrow> rid \<noteq> 0 \<Longrightarrow>
        pollStatus e rid w2 = Some (r, w3) \<Longrightarrow> conclusion r \<noteq> ''success'' \<Longrightarrow>
        recover e rid w3 = (True, w4) \<Longrightarrow> deploy e (attempt + 1) w4 = Some (out, w') \<Longrightarrow>
        P (attempt + 1) w4 out w' \<Longrightarrow> P attempt w out w'"
  shows "P attempt w out w'"
  using run
proof (induction "MAX_ATTEMPTS + 1 - attempt" arbitrary: attempt w)
  case 0
  then have over: "MAX_ATTEMPTS < attempt" by simp
  obtain p w1 where pf: "preflight e w = (p, w1)" by (cases "preflight e w")
  show ?case
  proof (cases p)
    case None
    with pf over 0(2) have "out = Returned False" "w' = w1"
      by (simp_all add: deploy.simps[of e attempt w])
    with pf None over show ?thesis by (simp add: budget)
  next
    case (Some out1)
    with pf 0(2) have "out = out1" "w' = w1"
      by (simp_all add: deploy.simps[of e attempt w])
    with pf Some show ?thesis by (simp add: early)
  qed
next
  case (Suc d)
  then have le: "attempt \<le> MAX_ATTEMPTS" by simp
  obtain p w1 where pf: "preflight e w = (p, w1)" by (cases "preflight e w")
  show ?case
  proof (cases p)
    case (Some out1)
    with pf Suc(3) have "out = out1" "w' = w1"
      by (simp_all add: deploy.simps[of e attempt w])
    with pf Some show ?thesis by (simp add: early)
  next
    case None
    note pf = pf[unfolded None]
    obtain runId w2 where sr: "startRun e w1 = (runId, w2)" by (cases "startRun e w1")
    show ?thesis
    proof (cases "noRunId runId")
      case True
      with pf le sr Suc(3) have "out = Returned False" "w' = w2"
        by (auto simp: deploy.simps[of e attempt w] noRunId_def split: option.splits)
      with pf le sr True show ?thesis by (simp add: norun)
    next
      case False
      then obtain rid where rid: "runId = Some rid" "rid \<noteq> 0"
        by (auto simp: noRunId_def split: option.splits)
      note sr = sr[unfolded rid(1)]
      from pf le sr rid(2) Suc(3) obtain r w3 where ps: "pollStatus e rid w2 = Some (r, w3)"
        by (cases "pollStatus e rid w2") (auto simp: deploy.simps[of e attempt w])
      show ?thesis
      proof (cases "conclusion r = ''success''")
        case True
        with pf le sr rid(2) ps Suc(3) have "out = Returned True" "w' = w3"
          by (simp_all add: deploy.simps[of e attempt w])
        with pf le sr rid(2) ps True show ?thesis by (simp add: success)
      next
        case False
        obtain fixed w4 where rc: "recover e rid w3 = (fixed, w4)" by (cases "recover e rid w3")
        show ?thesis
        proof (cases fixed)
          case False
          with pf le sr rid(2) ps \<open>conclusion r \<noteq> ''success''\<close> rc Suc(3)
          have "out = Returned False" "w' = w4"
            by (simp_all add: deploy.simps[of e attempt w])
          with pf le sr rid(2) ps \<open>conclusion r \<noteq> ''success''\<close> rc False
          show ?thesis by (simp add: giveup)
        next
          case True
          with pf le sr rid(2) ps \<open>conclusion r \<noteq> ''success''\<close> rc Suc(3)
          have next_run: "deploy e (attempt + 1) w4 = Some (out, w')"
            by (simp add: deploy.simps[of e attempt w])
          from Suc(2) have "d = MAX_ATTEMPTS + 1 - (attempt + 1)" by simp
          from Suc(1)[OF this next_run] have "P (attempt + 1) w4 out w'" .
          moreover from rc True have "recover e rid w3 = (True, w4)" by simp
          ultimately show ?thesis
            using pf le sr rid(2) ps \<open>conclusion r \<noteq> ''success''\<close> next_run
            by (blast intro: retry)
        qed
      qed
    qed
  qed
qed

subsection \<open>The attempts of a run\<close>

lemma countedI:
  "trace w' = trace w @ cs \<Longrightarrow> length (filter (\<lambda>c. c = GitRevParseHead) cs) = k \<Longrightarrow>
   counted k w w'"
  by (simp add: counted_def newCommands_def attemptsMade_def)

lemma counted_trans: "counted j w w1 \<Longrightarrow> counted k w1 w2 \<Longrightarrow> counted (j + k) w w2"
proof -
  assume a: "counted j w w1" "counted k w1 w2"
  then have "trace w2 = trace w @ (newCommands w w1 @ newCommands w1 w2)"
    by (simp add: counted_def)
  moreover from a have "length (filter (\<lambda>c. c = GitRevParseHead) (newCommands w w1 @ newCommands w1 w2)) = j + k"
    by (simp add: counted_def attemptsMade_def)
  ultimately show ?thesis by (rule countedI)
qed

lemma grows_quiet_counted: "grows quiet w w' \<Longrightarrow> counted 0 w w'"
  by (auto simp: grows_def quiet_def intro!: countedI)

lemma preflight_counted: "preflight e w = (p, w') \<Longrightarrow> counted 0 w w'"
proof -
  assume "preflight e w = (p, w')"
  from preflight_trace[OF this] obtain cs where
    cs: "trace w' = trace w @ cs" "\<forall>c \<in> set cs. preflightCommand c" by blast
  have "\<not> preflightCommand GitRevParseHead"
    by (simp add: preflightCommand_def isPut_def)
  with cs(2) have "filter (\<lambda>c. c = GitRevParseHead) cs = []"
    by (auto simp: filter_empty_conv)
  with cs(1) show ?thesis
    by (intro countedI[of _ _ cs]) simp_all
qed

lemma startRun_counted: "startRun e w = (r, w') \<Longrightarrow> counted 1 w w'"
proof -
  assume "startRun e w = (r, w')"
  from startRun_trace[OF this] obtain cs ds where
    "trace w' = trace w @ cs @ [GitRevParseHead] @ ds"
    "\<forall>c \<in> set cs. quiet c" "\<forall>c \<in> set ds. quiet c" by blast
  then show ?thesis
    by (intro countedI[of _ _ "cs @ [GitRevParseHead] @ ds"]) (auto simp: quiet_def)
qed

lemma pollStatus_counted: "pollStatus e rid w = Some (r, w') \<Longrightarrow> counted 0 w w'"
proof -
  assume "pollStatus e rid w = Some (r, w')"
  from pollStatus_Some[OF this] obtain n where
    "trace w' = trace w @ replicate (Suc n) (GhRunView rid)" by auto
  then show ?thesis
    by (intro countedI[of _ _ "replicate (Suc n) (GhRunView rid)"]) auto
qed

lemma recover_counted: "recover e rid w = (r, w') \<Longrightarrow> counted 0 w w'"
proof -
  assume "recover e rid w = (r, w')"
  from recover_trace[OF this] have "grows quiet w w'" by (auto simp: grows_def)
  then show ?thesis by (rule grows_quiet_counted)
qed

lemma deploy_attempts:
  assumes "deploy e attempt w = Some (out, w')"
  shows "\<exists>k \<le> MAX_ATTEMPTS + 1 - attempt. counted k w w'"
  using assms
proof (induction rule: deploy_run_induct)
  case (early attempt w out w')
  then show ?case using preflight_counted by blast
next
  case (budget attempt w w')
  then show ?case using preflight_counted by blast
next
  case (norun attempt w w1 runId w')
  from counted_trans[OF preflight_counted[OF norun(1)] startRun_counted[OF norun(3)]]
  have "counted 1 w w'" by simp
  with norun(2) show ?case by (intro exI[of _ 1]) simp
next
  case (success attempt w w1 rid w2 r w')
  from counted_trans[OF counted_trans[OF preflight_counted[OF success(1)]
        startRun_counted[OF success(3)]] pollStatus_counted[OF success(5)]]
  have "counted 1 w w'" by simp
  with success(2) show ?case by (intro exI[of _ 1]) simp
next
  case (giveup attempt w w1 rid w2 r w3 w')
  from counted_trans[OF counted_trans[OF counted_trans[OF preflight_counted[OF giveup(1)]
        startRun_counted[OF giveup(3)]] pollStatus_counted[OF giveup(5)]]
        recover_counted[OF giveup(7)]]
  have "counted 1 w w'" by simp
  with giveup(2) show ?case by (intro exI[of _ 1]) simp
next
  case (retry attempt w w1 rid w2 r w3 w4 out w')
  from counted_trans[OF counted_trans[OF counted_trans[OF preflight_counted[OF retry(1)]
        startRun_counted[OF retry(3)]] pollStatus_counted[OF retry(5)]]
        recover_counted[OF retry(7)]]
  have round: "counted 1 w w4" by simp
  from retry.IH obtain k where k: "k \<le> MAX_ATTEMPTS + 1 - (attempt + 1)" "counted k w4 w'"
    by blast
  from counted_trans[OF round k(2)] have "counted (1 + k) w w'" .
  moreover from k(1) retry(2) have "1 + k \<le> MAX_ATTEMPTS + 1 - attempt" by simp
  ultimately show ?case by blast
qed

subsection \<open>Runs that find nothing to sync\<close>

lemma nothingToSync_grows: "grows P w w' \<Longrightarrow> nothingToSync e w \<Longrightarrow> nothingToSync e w'"
  by (auto simp: grows_def nothingToSync_def)

lemma startRun_grows: "startRun e w = (r, w') \<Longrightarrow> grows (\<lambda>c. \<not> isPut c) w w'"
proof -
  assume "startRun e w = (r, w')"
  from startRun_trace[OF this] obtain cs ds where
    t: "trace w' = trace w @ cs @ [GitRevParseHead] @ ds"
    "\<forall>c \<in> set cs. quiet c" "\<forall>c \<in> set ds. quiet c" "remote w' = remote w" by blast
  then have "\<forall>c \<in> set (cs @ [GitRevParseHead] @ ds). \<not> isPut c"
    by (auto simp: quiet_def isPut_def)
  with t(1,4) show ?thesis unfolding grows_def by blast
qed

lemma pollStatus_grows: "pollStatus e rid w = Some (r, w') \<Longrightarrow> grows (\<lambda>c. c = GhRunView rid) w w'"
proof -
  assume "pollStatus e rid w = Some (r, w')"
  from pollStatus_Some[OF this] obtain n where
    "trace w' = trace w @ replicate (Suc n) (GhRunView rid)" "remote w' = remote w" by auto
  moreover have "\<forall>c \<in> set (replicate (Suc n) (GhRunView rid)). c = GhRunView rid" by simp
  ultimately show ?thesis unfolding grows_def by blast
qed

lemma recover_grows: "recover e rid w = (r, w') \<Longrightarrow> grows quiet w w'"
  by (drule recover_trace) (auto simp: grows_def)

lemma round_no_put:
  assumes "preflight e w = (p, w1)" and "nothingToSync e w"
    and "startRun e w1 = (runId, w2)"
  shows "grows (\<lambda>c. \<not> isPut c) w w2"
proof -
  from preflight_nothingToSync[OF assms(1,2)] have "grows (\<lambda>c. \<not> isPut c) w w1"
    by (rule grows_weaken) simp
  with startRun_grows[OF assms(3)] show ?thesis by (blast intro: grows_trans)
qed

lemma deploy_no_put:
  assumes "deploy e attempt w = Some (out, w')"
  shows "nothingToSync e w \<Longrightarrow> grows (\<lambda>c. \<not> isPut c) w w'"
  using assms
proof (induction rule: deploy_run_induct)
  case (early attempt w out w')
  from preflight_nothingToSync[OF early(1,2)] show ?case by (rule grows_weaken) simp
next
  case (budget attempt w w')
  from preflight_nothingToSync[OF budget(1,3)] show ?case by (rule grows_weaken) simp
next
  case (norun attempt w w1 runId w')
  from round_no_put[OF norun(1) norun(5) norun(3)] show ?case .
next
  case (success attempt w w1 rid w2 r w')
  have "grows (\<lambda>c. \<not> isPut c) w2 w'"
    using pollStatus_grows[OF success(5)] by (rule grows_weaken) (simp add: isPut_def)
  with round_no_put[OF success(1) success(7) success(3)] show ?case
    by (blast intro: grows_trans)
next
  case (giveup attempt w w1 rid w2 r w3 w')
  have "grows (\<lambda>c. \<not> isPut c) w2 w3"
    using pollStatus_grows[OF giveup(5)] by (rule grows_weaken) (simp add: isPut_def)
  moreover have "grows (\<lambda>c. \<not> isPut c) w3 w'"
    using recover_grows[OF giveup(7)] by (rule grows_weaken) (simp add: quiet_def)
  ultimately show ?case
    using round_no_put[OF giveup(1) giveup(8) giveup(3)] by (blast intro: grows_trans)
next
  case (retry attempt w w1 rid w2 r w3 w4 out w')
  have "grows (\<lambda>c. \<not> isPut c) w2 w3"
    using pollStatus_grows[OF retry(5)] by (rule grows_weaken) (simp add: isPut_def)
  moreover have "grows (\<lambda>c. \<not> isPut c) w3 w4"
    using recover_grows[OF retry(7)] by (rule grows_weaken) (simp add: quiet_def)
  ultimately have round: "grows (\<lambda>c. \<not> isPut c) w w4"
    using round_no_put[OF retry(1) retry(10) retry(3)] by (blast intro: grows_trans)
  from nothingToSync_grows[OF round retry(10)] have "nothingToSync e w4" .
  from retry.IH[OF this] round show ?case by (blast intro: grows_trans)
qed

subsection \<open>How a run ends\<close>

lemma preflight_not_true: "preflight e w = (Some out, w') \<Longrightarrow> out \<noteq> Returned True"
  by (auto simp: preflight_def checkGhInstalled_def run_def Let_def
           split: if_splits prod.splits sum.splits)

lemma not_lastPollSucceeded:
  assumes "trace w' = trace w @ cs" and "cs \<noteq> []" and "\<forall>c \<in> set cs. \<not> isRunView c"
  shows "\<not> lastPollSucceeded e w'"
proof -
  from assms(1,2) have "last (trace w') = last cs" by simp
  with assms(2,3) have "\<not> isRunView (last (trace w'))" by simp
  then show ?thesis by (simp add: lastPollSucceeded_def)
qed

lemma preflight_not_poll: "preflight e w = (p, w') \<Longrightarrow> \<not> lastPollSucceeded e w'"
proof -
  assume "preflight e w = (p, w')"
  from preflight_trace[OF this] obtain cs where
    cs: "cs \<noteq> []" "trace w' = trace w @ cs" "\<forall>c \<in> set cs. preflightCommand c" by blast
  have "\<not> isRunView c" if "preflightCommand c" for c
    using that by (auto simp: preflightCommand_def isPut_def isRunView_def split: command.splits)
  with cs(3) have "\<forall>c \<in> set cs. \<not> isRunView c" by blast
  from not_lastPollSucceeded[OF cs(2,1) this] show ?thesis .
qed

lemma startRun_not_poll: "startRun e w = (r, w') \<Longrightarrow> \<not> lastPollSucceeded e w'"
proof -
  assume "startRun e w = (r, w')"
  from startRun_trace[OF this] obtain cs ds where
    t: "trace w' = trace w @ cs @ [GitRevParseHead] @ ds" "\<forall>c \<in> set ds. quiet c" "ds \<noteq> []"
    by blast
  from t(1) have "trace w' = (trace w @ cs @ [GitRevParseHead]) @ ds" by simp
  moreover from t(2) have "\<forall>c \<in> set ds. \<not> isRunView c" by (simp add: quiet_def)
  ultimately have "last (trace w') = last ds" "\<not> isRunView (last ds)" using t(3) by simp_all
  then show ?thesis by (simp add: lastPollSucceeded_def)
qed

lemma recover_not_poll: "recover e rid w = (r, w') \<Longrightarrow> \<not> lastPollSucceeded e w'"
proof -
  assume "recover e rid w = (r, w')"
  from recover_trace[OF this] obtain cs where
    cs: "cs \<noteq> []" "trace w' = trace w @ cs" "\<forall>c \<in> set cs. quiet c" by blast
  then have "\<forall>c \<in> set cs. \<not> isRunView c" by (simp add: quiet_def)
  from not_lastPollSucceeded[OF cs(2,1) this] show ?thesis .
qed

lemma pollStatus_last:
  assumes "pollStatus e rid w = Some (r, w')"
  shows "lastPollSucceeded e w' \<longleftrightarrow> conclusion r = ''success''"
proof -
  from pollStatus_Some[OF assms] obtain n where
    n: "trace w' = trace w @ replicate (Suc n) (GhRunView rid)"
    "runStatusOf e (now w + n) = Some r" "status r = ''completed''" by auto
  from n(1) have "now w' - 1 = now w + n" by (simp add: now_def)
  moreover from n(1) have "trace w' \<noteq> []" "last (trace w') = GhRunView rid"
    by (simp_all add: replicate_append_same[symmetric])
  ultimately show ?thesis using n(2,3) by (simp add: lastPollSucceeded_def isRunView_def)
qed

lemma deploy_true_iff:
  assumes "deploy e attempt w = Some (out, w')"
  shows "out = Returned True \<longleftrightarrow> lastPollSucceeded e w'"
  using assms
proof (induction rule: deploy_run_induct)
  case (early attempt w out w')
  with preflight_not_true preflight_not_poll show ?case by blast
next
  case (budget attempt w w')
  with preflight_not_poll show ?case by blast
next
  case (norun attempt w w1 runId w')
  with startRun_not_poll show ?case by blast
next
  case (success attempt w w1 rid w2 r w')
  with pollStatus_last show ?case by blast
next
  case (giveup attempt w w1 rid w2 r w3 w')
  with recover_not_poll show ?case by blast
next
  case (retry attempt w w1 rid w2 r w3 w4 out w')
  then show ?case by blast
qed

subsection \<open>The attempt budget and termination\<close>

lemma deploy_over_budget:
  assumes "MAX_ATTEMPTS < attempt"
  shows "\<exists>out w'. deploy e attempt w = Some (out, w') \<and> out \<noteq> Returned True \<and>
           w' = snd (preflight e w) \<and>
           (\<forall>c \<in> set (newCommands w w'). preflightCommand c)"
proof -
  obtain p w1 where pf: "preflight e w = (p, w1)" by (cases "preflight e w")
  from preflight_trace[OF pf] obtain cs where
    "trace w1 = trace w @ cs" "\<forall>c \<in> set cs. preflightCommand c" by blast
  then have nc: "\<forall>c \<in> set (newCommands w w1). preflightCommand c"
    by (simp add: newCommands_def)
  show ?thesis
  proof (cases p)
    case None
    with pf assms have "deploy e attempt w = Some (Returned False, w1)"
      by (simp add: deploy.simps[of e attempt w])
    with pf nc show ?thesis by simp
  next
    case (Some out)
    with pf have "deploy e attempt w = Some (out, w1)"
      by (simp add: deploy.simps[of e attempt w])
    moreover from pf Some have "out \<noteq> Returned True" by (auto dest: preflight_not_true)
    ultimately show ?thesis using pf nc by simp
  qed
qed

lemma deploy_returns:
  assumes "pollsComplete e"
  shows "\<exists>y. deploy e attempt w = Some y"
proof (induction "MAX_ATTEMPTS + 1 - attempt" arbitrary: attempt w)
  case 0
  then have "MAX_ATTEMPTS < attempt" by simp
  from deploy_over_budget[OF this] show ?case by blast
next
  case (Suc d)
  then have le: "\<not> MAX_ATTEMPTS < attempt" by simp
  obtain p w1 where pf: "preflight e w = (p, w1)" by (cases "preflight e w")
  obtain runId w2 where sr: "startRun e w1 = (runId, w2)" by (cases "startRun e w1")
  show ?case
  proof (cases "p = None \<and> \<not> noRunId runId")
    case False
    with pf sr le show ?thesis
      by (auto simp: deploy.simps[of e attempt w] noRunId_def split: option.splits)
  next
    case True
    then obtain rid where rid: "p = None" "runId = Some rid" "rid \<noteq> 0"
      by (auto simp: noRunId_def split: option.splits)
    from assms obtain m where "now w2 \<le> m" "completedAt e m"
      unfolding pollsComplete_def by blast
    from pollStatus_returns[OF this] obtain r w3 where ps: "pollStatus e rid w2 = Some (r, w3)"
      by fastforce
    obtain fixed w4 where rc: "recover e rid w3 = (fixed, w4)" by (cases "recover e rid w3")
    from Suc(2) have "d = MAX_ATTEMPTS + 1 - (attempt + 1)" by simp
    from Suc(1)[OF this] obtain y where "deploy e (attempt + 1) w4 = Some y" by blast
    with pf sr le rid ps rc show ?thesis
      by (simp add: deploy.simps[of e attempt w])
  qed
qed

lemma deploy_stuck:
  assumes "preflight e w = (None, w1)" and "attempt \<le> MAX_ATTEMPTS"
    and "startRun e w1 = (Some rid, w2)" and "rid \<noteq> 0"
    and "\<forall>m \<ge> now w2. \<not> completedAt e m"
  shows "deploy e attempt w = None"
  using assms pollStatus_never[OF assms(5), of rid]
  by (simp add: deploy.simps[of e attempt w])


subsection \<open>The conclusion of a run that has not completed is never read\<close>

lemma agreeOnCompleted_sym: "agreeOnCompleted a b \<Longrightarrow> agreeOnCompleted b a"
  by (auto simp: agreeOnCompleted_def split: option.splits)

lemma differOnly_sym:
  "differOnlyInPendingConclusions e e' \<Longrightarrow> differOnlyInPendingConclusions e' e"
  by (simp add: differOnlyInPendingConclusions_def agreeOnCompleted_sym)

lemma agree_completedAt:
  assumes "agreeOnCompleted (runStatusOf e n) (runStatusOf e' n)"
  shows "completedAt e' n = completedAt e n"
    and "completedAt e n \<Longrightarrow> runStatusOf e' n = runStatusOf e n"
  using assms
  by (auto simp: agreeOnCompleted_def completedAt_def split: option.splits)

lemma pollStatus_blind_Some:
  assumes "pollStatus e rid w = Some y" and d: "differOnlyInPendingConclusions e e'"
  shows "pollStatus e' rid w = Some y"
proof -
  have "differOnlyInPendingConclusions e e' \<longrightarrow> pollStatus e' rid w = Some y"
  proof (rule pollStatus.raw_induct
      [where P = "\<lambda>e rid w y. differOnlyInPendingConclusions e e' \<longrightarrow> pollStatus e' rid w = Some y",
       OF _ assms(1)], goal_cases)
    case (1 poll e rid w y)
    let ?w1 = "issue (GhRunView rid) w"
    show ?case
    proof
      assume d: "differOnlyInPendingConclusions e e'"
      then have ag: "agreeOnCompleted (runStatusOf e (now w)) (runStatusOf e' (now w))"
        by (simp add: differOnlyInPendingConclusions_def)
      show "pollStatus e' rid w = Some y"
      proof (cases "completedAt e (now w)")
        case True
        then have "y = (the (runStatusOf e (now w)), ?w1)"
          using 1(2) by (auto simp: getRunStatus_def completedAt_def split: option.splits)
        with True agree_completedAt[OF ag] show ?thesis
          by (subst pollStatus_step) simp
      next
        case False
        with 1(2) have "poll e rid ?w1 = Some y"
          by (auto simp: getRunStatus_def completedAt_def split: option.splits if_splits)
        from 1(1)[OF this] d have "pollStatus e' rid ?w1 = Some y" by simp
        with False agree_completedAt(1)[OF ag] show ?thesis
          by (subst pollStatus_step) simp
      qed
    qed
  qed
  with d show ?thesis by simp
qed

lemma pollStatus_blind:
  assumes "differOnlyInPendingConclusions e e'"
  shows "pollStatus e' rid w = pollStatus e rid w"
proof (cases "pollStatus e rid w")
  case (Some y)
  with pollStatus_blind_Some[OF Some assms] show ?thesis by simp
next
  case None
  show ?thesis
  proof (cases "pollStatus e' rid w")
    case None
    with \<open>pollStatus e rid w = None\<close> show ?thesis by simp
  next
    case (Some y)
    from pollStatus_blind_Some[OF Some differOnly_sym[OF assms]] None show ?thesis by simp
  qed
qed

lemma blind_fields:
  assumes "differOnlyInPendingConclusions e e'"
  shows "isProduction e' = isProduction e" "firebaseToken e' = firebaseToken e"
    "localFile e' = localFile e" "exitsOk e' = exitsOk e" "stdoutOf e' = stdoutOf e"
    "runListOf e' = runListOf e"
  using assms by (simp_all add: differOnlyInPendingConclusions_def)

lemma run_blind:
  "differOnlyInPendingConclusions e e' \<Longrightarrow> run e' c w = run e c w"
  unfolding run_def by (simp add: blind_fields)

lemma getLatestRunId_blind:
  "differOnlyInPendingConclusions e e' \<Longrightarrow> getLatestRunId e' sha w = getLatestRunId e sha w"
  unfolding getLatestRunId_def by (simp add: blind_fields)

lemma awaitRunId_blind:
  "differOnlyInPendingConclusions e e' \<Longrightarrow>
   awaitRunId e' sha n runId w = awaitRunId e sha n runId w"
  by (induction n arbitrary: runId w) (simp_all add: getLatestRunId_blind split: prod.splits)

lemma installPackages_blind:
  "differOnlyInPendingConclusions e e' \<Longrightarrow>
   installPackages e' pkgs fixed w = installPackages e pkgs fixed w"
  by (induction pkgs arbitrary: fixed w) (simp_all add: run_blind)

lemma fixErrors_blind:
  "differOnlyInPendingConclusions e e' \<Longrightarrow> fixErrors e' errs fixed w = fixErrors e errs fixed w"
  by (induction errs arbitrary: fixed w)
     (simp_all add: run_blind installPackages_blind split: prod.splits)

lemma getAccessToken_deploy_blind:
  assumes d: "differOnlyInPendingConclusions e e'"
  shows "getAccessToken_deploy e' w = getAccessToken_deploy e w"
  unfolding getAccessToken_deploy_def blind_fields[OF d] by simp

lemma getRemoteConfig_blind:
  assumes d: "differOnlyInPendingConclusions e e'"
  shows "getRemoteConfig e' w = getRemoteConfig e w"
  unfolding getRemoteConfig_def getAccessToken_deploy_blind[OF d] blind_fields[OF d] by simp

lemma setRemoteConfig_blind:
  assumes d: "differOnlyInPendingConclusions e e'"
  shows "setRemoteConfig e' c w = setRemoteConfig e c w"
  unfolding setRemoteConfig_def getAccessToken_deploy_blind[OF d] blind_fields[OF d] by simp

lemma validateStep_blind:
  assumes d: "differOnlyInPendingConclusions e e'"
  shows "validateStep e' w = validateStep e w"
  unfolding validateStep_def validateRemoteConfig_def syncRemoteConfig_def
    getRemoteConfig_blind[OF d] setRemoteConfig_blind[OF d] blind_fields[OF d] by simp

lemma preflight_blind:
  assumes d: "differOnlyInPendingConclusions e e'"
  shows "preflight e' w = preflight e w"
  unfolding preflight_def checkGhInstalled_def run_blind[OF d] validateStep_blind[OF d]
    blind_fields[OF d] by simp

lemma startRun_blind:
  assumes d: "differOnlyInPendingConclusions e e'"
  shows "startRun e' w = startRun e w"
  unfolding startRun_def commitAndPush_def run_blind[OF d] getLatestRunId_blind[OF d]
    awaitRunId_blind[OF d] by simp

lemma autoFix_blind:
  assumes d: "differOnlyInPendingConclusions e e'"
  shows "autoFix e' errs w = autoFix e errs w"
  unfolding autoFix_def commitAndPush_def fixErrors_blind[OF d] run_blind[OF d] by simp

lemma recover_blind:
  assumes d: "differOnlyInPendingConclusions e e'"
  shows "recover e' rid w = recover e rid w"
  unfolding recover_def getRunLogs_def autoFix_blind[OF d] blind_fields[OF d] by simp

lemma deploy_blind:
  assumes d: "differOnlyInPendingConclusions e e'"
  shows "deploy e' attempt w = deploy e attempt w"
proof (induction "MAX_ATTEMPTS + 1 - attempt" arbitrary: attempt w)
  case 0
  then have "MAX_ATTEMPTS < attempt" by simp
  then show ?case
    unfolding deploy.simps[of e attempt w] deploy.simps[of e' attempt w] preflight_blind[OF d]
    by (simp split: prod.splits option.splits)
next
  case (Suc n)
  then have "n = MAX_ATTEMPTS + 1 - (attempt + 1)" by simp
  from Suc(1)[OF this] have ih: "deploy e' (attempt + 1) v = deploy e (attempt + 1) v" for v .
  show ?case
    unfolding deploy.simps[of e attempt w] deploy.simps[of e' attempt w] preflight_blind[OF d]
      startRun_blind[OF d] recover_blind[OF d] pollStatus_blind[OF d] ih
    by simp
qed

subsection \<open>The template that \<open>syncRemoteConfig\<close> publishes\<close>

lemma map_of_map_update_key:
  "map_of (map (\<lambda>(j, p). if j = k then (j, f p) else (j, p)) xs) k' =
     (if k' = k then map_option f (map_of xs k) else map_of xs k')"
  by (induction xs) auto

lemma map_of_insert_between:
  "k \<notin> fst ` set xs \<Longrightarrow>
   map_of (xs @ (k, v) # ys) k' = (if k' = k then Some v else map_of (xs @ ys) k')"
  by (induction xs) auto

lemma map_of_insertProp:
  assumes "map_of obj k = None"
  shows "map_of (insertProp k v obj) k' = (if k' = k then Some v else map_of obj k')"
proof (cases "arrayIndex k")
  case None
  with assms show ?thesis by (simp add: insertProp_def map_add_def split: option.splits)
next
  case (Some n)
  let ?xs = "takeWhile (comesBefore n) obj"
  let ?ys = "dropWhile (comesBefore n) obj"
  from assms have "k \<notin> fst ` set obj" by (simp add: map_of_eq_None_iff)
  then have "k \<notin> fst ` set ?xs" using set_takeWhileD by fastforce
  from map_of_insert_between[OF this, of v ?ys k'] Some show ?thesis
    by (simp add: insertProp_def)
qed

lemma mergeConditionalValues_ordinary:
  assumes "ordinaryName k"
  shows "snd (mergeConditionalValues (params, False) (k, conds)) = False"
    and "map_of (fst (mergeConditionalValues (params, False) (k, conds))) k' =
           (if k' = k
            then Some ((case map_of params k of None \<Rightarrow> controlParameter | Some p \<Rightarrow> p)
                        \<lparr> paramConditionalValues := Some (copyEntries conds) \<rparr>)
            else map_of params k')"
  by (simp_all add: mergeConditionalValues_def getProp_ordinary[OF assms] map_of_map_update_key
        map_of_insertProp split: option.splits)

lemma merge_ordinary_state:
  "ordinaryName k \<Longrightarrow>
   mergeConditionalValues (params, False) (k, conds)
     = (fst (mergeConditionalValues (params, False) (k, conds)), False)"
  using mergeConditionalValues_ordinary(1)[of k params conds] by (simp add: prod_eq_iff)

lemma foldl_merge_flag:
  "\<forall>k \<in> fst ` set cvs. ordinaryName k \<Longrightarrow>
   snd (foldl mergeConditionalValues (params, False) cvs) = False"
proof (induction cvs arbitrary: params)
  case Nil
  then show ?case by simp
next
  case (Cons entry cvs)
  obtain j c where entry: "entry = (j, c)" by (cases entry)
  with Cons.prems have o: "ordinaryName j" "\<forall>k \<in> fst ` set cvs. ordinaryName k" by simp_all
  from Cons.IH[OF o(2), of "fst (mergeConditionalValues (params, False) (j, c))"]
    merge_ordinary_state[OF o(1), of params c]
  show ?case by (simp add: entry)
qed

lemma foldl_merge_other:
  "\<forall>k \<in> fst ` set cvs. ordinaryName k \<Longrightarrow> k \<notin> fst ` set cvs \<Longrightarrow>
   map_of (fst (foldl mergeConditionalValues (params, False) cvs)) k = map_of params k"
proof (induction cvs arbitrary: params)
  case Nil
  then show ?case by simp
next
  case (Cons entry cvs)
  obtain j c where entry: "entry = (j, c)" by (cases entry)
  with Cons.prems have o: "ordinaryName j" "\<forall>k \<in> fst ` set cvs. ordinaryName k" by simp_all
  from Cons.prems entry have k: "k \<noteq> j" "k \<notin> fst ` set cvs" by auto
  from Cons.IH[OF o(2) k(2), of "fst (mergeConditionalValues (params, False) (j, c))"]
    merge_ordinary_state[OF o(1), of params c] k(1)
    mergeConditionalValues_ordinary(2)[OF o(1), of params c k]
  show ?case by (simp add: entry)
qed

lemma foldl_merge_entry:
  "\<forall>k \<in> fst ` set cvs. ordinaryName k \<Longrightarrow> distinct (map fst cvs) \<Longrightarrow>
   (k, conds) \<in> set cvs \<Longrightarrow>
   map_of (fst (foldl mergeConditionalValues (params, False) cvs)) k =
     Some ((case map_of params k of None \<Rightarrow> controlParameter | Some p \<Rightarrow> p)
            \<lparr> paramConditionalValues := Some (copyEntries conds) \<rparr>)"
proof (induction cvs arbitrary: params)
  case Nil
  then show ?case by simp
next
  case (Cons entry cvs)
  obtain j c where entry: "entry = (j, c)" by (cases entry)
  with Cons.prems have o: "ordinaryName j" "\<forall>k \<in> fst ` set cvs. ordinaryName k" by simp_all
  let ?p = "fst (mergeConditionalValues (params, False) (j, c))"
  note s = merge_ordinary_state[OF o(1), of params c]
  show ?case
  proof (cases "(k, conds) = entry")
    case True
    with Cons.prems(2) have "k \<notin> fst ` set cvs" by (auto simp: image_iff)
    from foldl_merge_other[OF o(2) this, of ?p] s True[symmetric]
      mergeConditionalValues_ordinary(2)[OF o(1), of params c k]
    show ?thesis by (simp add: entry)
  next
    case False
    with Cons.prems have in_rest: "(k, conds) \<in> set cvs" and d: "distinct (map fst cvs)"
      by auto
    with Cons.prems(2) entry have "k \<noteq> j" by (auto simp: image_iff)
    with Cons.IH[OF o(2) d in_rest, of ?p] s
      mergeConditionalValues_ordinary(2)[OF o(1), of params c k]
    show ?thesis by (simp add: entry)
  qed
qed

lemma assignEntry_new:
  "map_of obj k = None \<Longrightarrow> k \<noteq> ''__proto__'' \<Longrightarrow> arrayIndex k = None \<Longrightarrow>
   assignEntry k v obj = obj @ [(k, v)]"
  by (simp add: assignEntry_def insertProp_def)

lemma foldl_assignEntry_append:
  assumes "distinct (map fst (acc @ conds))"
    and "\<forall>k \<in> fst ` set conds. k \<noteq> ''__proto__'' \<and> arrayIndex k = None"
  shows "foldl (\<lambda>obj (k, v). assignEntry k v obj) acc conds = acc @ conds"
  using assms
proof (induction conds arbitrary: acc)
  case Nil
  then show ?case by simp
next
  case (Cons entry conds)
  obtain k v where entry: "entry = (k, v)" by (cases entry)
  from Cons.prems(1) entry have "k \<notin> fst ` set acc" by auto
  then have "map_of acc k = None" by (simp add: map_of_eq_None_iff)
  with Cons.prems(2) entry have a: "assignEntry k v acc = acc @ [(k, v)]"
    by (intro assignEntry_new) simp_all
  from Cons.prems(1) entry have "distinct (map fst ((acc @ [(k, v)]) @ conds))" by simp
  moreover from Cons.prems(2) have
    "\<forall>k \<in> fst ` set conds. k \<noteq> ''__proto__'' \<and> arrayIndex k = None" by simp
  ultimately have "foldl (\<lambda>obj (k, v). assignEntry k v obj) (acc @ [(k, v)]) conds
                   = (acc @ [(k, v)]) @ conds" by (rule Cons.IH)
  with a show ?case by (simp add: entry)
qed

text \<open>
  Conditional values under distinct names, none of them an array index or
  \<open>__proto__\<close>, are copied as they are.
\<close>

lemma copyEntries_plain:
  "distinct (map fst conds) \<Longrightarrow>
   \<forall>k \<in> fst ` set conds. k \<noteq> ''__proto__'' \<and> arrayIndex k = None \<Longrightarrow>
   copyEntries conds = conds"
  unfolding copyEntries_def using foldl_assignEntry_append[of "[]" conds] by simp

text \<open>
  The template of a file whose conditional values are listed under ordinary names: the
  conditions of the file; the parameters of the file, each parameter named in
  \<open>conditionalValues\<close> holding the conditional values listed for it, and created with
  the default \<open>control\<close> when the file does not define it.
\<close>

lemma buildTemplate_ordinary:
  assumes "\<forall>k \<in> fst ` set (orEmpty (conditionalValues config)). ordinaryName k"
  shows "\<exists>params. parameters (buildTemplate config) = Some params \<and>
     (\<forall>k. k \<notin> fst ` set (orEmpty (conditionalValues config)) \<longrightarrow>
          map_of params k = map_of (orEmpty (parameters config)) k) \<and>
     (distinct (map fst (orEmpty (conditionalValues config))) \<longrightarrow>
        (\<forall>(k, conds) \<in> set (orEmpty (conditionalValues config)).
           map_of params k =
             Some ((case map_of (orEmpty (parameters config)) k of
                      None \<Rightarrow> controlParameter | Some p \<Rightarrow> p)
                     \<lparr> paramConditionalValues := Some (copyEntries conds) \<rparr>)))"
proof (cases "conditionalValues config")
  case None
  then show ?thesis by (simp add: buildTemplate_def orEmpty_def)
next
  case (Some cvs)
  let ?orig = "orEmpty (parameters config)"
  let ?params = "fst (foldl mergeConditionalValues (?orig, False) cvs)"
  from Some have p: "parameters (buildTemplate config) = Some ?params"
    and c: "orEmpty (conditionalValues config) = cvs"
    by (simp_all add: buildTemplate_def orEmpty_def)
  from assms c have o: "\<forall>k \<in> fst ` set cvs. ordinaryName k" by simp
  have a: "\<forall>k. k \<notin> fst ` set cvs \<longrightarrow> map_of ?params k = map_of ?orig k"
    using foldl_merge_other[OF o] by blast
  have b: "map_of ?params k =
             Some ((case map_of ?orig k of None \<Rightarrow> controlParameter | Some p \<Rightarrow> p)
                     \<lparr> paramConditionalValues := Some (copyEntries conds) \<rparr>)"
    if "distinct (map fst cvs)" "(k, conds) \<in> set cvs" for k conds
    using that by (intro foldl_merge_entry[OF o])
  show ?thesis
    unfolding p c using a b by (intro exI[of _ ?params]) auto
qed

lemma buildTemplate_conditions: "conditions (buildTemplate config) = Some (orEmpty (conditions config))"
  by (simp add: buildTemplate_def)

lemma getAccessToken_deploy_cases:
  "getAccessToken_deploy e w =
     (if exitsOk e (now w) then Inr (trim (stdoutOf e (now w)))
      else (case firebaseToken e of
              None \<Rightarrow> Inl TokenUnavailable
            | Some token \<Rightarrow> if token \<noteq> [] then Inr token else Inl TokenUnavailable),
      issue FirebasePrintAccessToken w)"
  by (simp add: getAccessToken_deploy_def split: option.splits)

subsection \<open>The example runs\<close>

lemma diff_example_in_sync: "diffRemoteConfig exampleLocal exampleRemote = []"
  by (simp add: diffRemoteConfig_def paramErrorsDeploy_def conditionErrorsDeploy_def
        getProp_def truthyParameter_def ownEntries_def exampleLocal_def exampleRemote_def
        orEmpty_def defaultOf_def)

lemma trim_examples: "trim ''main'' = ''main''" "trim ''abc123'' = ''abc123''" "trim [] = []"
  by (simp_all add: trim_def isSpace_def)

lemma preflight_example: "preflight (exampleEnv polls) syncedWorld = (None, afterPreflight)"
  by (simp add: preflight_def checkGhInstalled_def run_def validateStep_def
        validateRemoteConfig_def getRemoteConfig_def getAccessToken_deploy_def
        exampleEnv_def syncedWorld_def afterPreflight_def now_def issue_def trim_examples
        diff_example_in_sync)

lemma startRun_example: "startRun (exampleEnv polls) afterPreflight = (Some 7, afterStart)"
  by (simp add: startRun_def getLatestRunId_def truthySha_def run_def exampleEnv_def
        afterPreflight_def afterStart_def now_def issue_def trim_examples noRunId_def
        numeral_eq_Suc)

lemma pollStatus_okEnv: "pollStatus okEnv 7 afterStart = Some (completedSuccess, afterPoll)"
  by (subst pollStatus_step)
     (simp add: completedAt_def okEnv_def exampleEnv_def completedSuccess_def afterStart_def
        afterPoll_def now_def issue_def)

lemma deploy_okEnv: "deploy okEnv 1 syncedWorld = Some (Returned True, afterPoll)"
proof -
  have "preflight okEnv syncedWorld = (None, afterPreflight)"
    unfolding okEnv_def by (rule preflight_example)
  moreover have "startRun okEnv afterPreflight = (Some 7, afterStart)"
    unfolding okEnv_def by (rule startRun_example)
  ultimately show ?thesis
    using pollStatus_okEnv
    by (subst deploy.simps) (simp add: MAX_ATTEMPTS_def completedSuccess_def)
qed

lemma pollsComplete_okEnv: "pollsComplete okEnv"
  by (auto simp: pollsComplete_def completedAt_def okEnv_def exampleEnv_def completedSuccess_def)

lemma never_completes_stuckEnv: "\<not> completedAt stuckEnv m"
  by (simp add: completedAt_def stuckEnv_def exampleEnv_def inProgress_def)

text \<open>
  Claim C2, as stated, fails: \<open>deploy\<close> does not terminate for every input. Where the
  status of the run never becomes \<open>completed\<close>, the first attempt polls forever.
\<close>

theorem deploy_polls_forever: "deploy stuckEnv 1 syncedWorld = None"
proof (rule deploy_stuck)
  show "preflight stuckEnv syncedWorld = (None, afterPreflight)"
    unfolding stuckEnv_def by (rule preflight_example)
  show "startRun stuckEnv afterPreflight = (Some 7, afterStart)"
    unfolding stuckEnv_def by (rule startRun_example)
  show "1 \<le> MAX_ATTEMPTS" by (simp add: MAX_ATTEMPTS_def)
  show "(7::nat) \<noteq> 0" by simp
  show "\<forall>m \<ge> now afterStart. \<not> completedAt stuckEnv m"
    by (simp add: never_completes_stuckEnv)
qed

text \<open>
  Claim C2, amended. A call of \<open>deploy\<close> with an attempt counter above
  \<open>MAX_ATTEMPTS\<close> (5) ends without a true result and runs only the commands of the
  checks that precede the budget: it neither pushes, nor lists, nor polls a workflow run.
  Every retry passes a counter that is larger by one, so a run that returns has made at
  most \<open>MAX_ATTEMPTS + 1 - attempt\<close> attempts (at most 5 from the first). The run
  returns whenever every polling loop ends, that is, whenever the status queries answer
  \<open>completed\<close> again and again; the polling loop itself has no bound.
\<close>

theorem deploy_attempt_budget:
  "(MAX_ATTEMPTS < attempt \<longrightarrow>
      (\<exists>out w'. deploy e attempt w = Some (out, w') \<and> out \<noteq> Returned True \<and>
         (\<forall>c \<in> set (newCommands w w'). preflightCommand c))) \<and>
   (\<forall>out w'. deploy e attempt w = Some (out, w') \<longrightarrow>
      attemptsMade w w' \<le> MAX_ATTEMPTS + 1 - attempt) \<and>
   MAX_ATTEMPTS = 5 \<and>
   (pollsComplete e \<longrightarrow> (\<exists>y. deploy e attempt w = Some y))"
proof -
  have a: "MAX_ATTEMPTS < attempt \<longrightarrow>
      (\<exists>out w'. deploy e attempt w = Some (out, w') \<and> out \<noteq> Returned True \<and>
         (\<forall>c \<in> set (newCommands w w'). preflightCommand c))"
    using deploy_over_budget[of attempt e w] by blast
  have b: "attemptsMade w w' \<le> MAX_ATTEMPTS + 1 - attempt"
    if "deploy e attempt w = Some (out, w')" for out w'
    using deploy_attempts[OF that] by (auto simp: counted_def)
  have c: "pollsComplete e \<longrightarrow> (\<exists>y. deploy e attempt w = Some y)"
    using deploy_returns[of e attempt w] by blast
  from a b c show ?thesis by (simp add: MAX_ATTEMPTS_def)
qed

theorem deploy_attempt_budget_witness:
  "MAX_ATTEMPTS < 6 \<and> pollsComplete okEnv \<and>
   deploy okEnv 1 syncedWorld = Some (Returned True, afterPoll) \<and>
   attemptsMade syncedWorld afterPoll \<le> 5 \<and>
   (\<exists>out w'. deploy okEnv 6 syncedWorld = Some (out, w') \<and> out \<noteq> Returned True)"
proof -
  have over: "MAX_ATTEMPTS < 6" by (simp add: MAX_ATTEMPTS_def)
  from deploy_attempt_budget[of 6 okEnv syncedWorld] over
  have "\<exists>out w'. deploy okEnv 6 syncedWorld = Some (out, w') \<and> out \<noteq> Returned True"
    by blast
  moreover from deploy_attempt_budget[of 1 okEnv syncedWorld] deploy_okEnv
  have "attemptsMade syncedWorld afterPoll \<le> 5" by simp
  ultimately show ?thesis using over pollsComplete_okEnv deploy_okEnv by blast
qed

subsection \<open>The polling loop, exactly\<close>

lemma pollStatus_first_completed:
  assumes "completedAt e (now w + k)" and "\<forall>j < k. \<not> completedAt e (now w + j)"
  shows "pollStatus e rid w =
           Some (the (runStatusOf e (now w + k)),
                 w \<lparr> trace := trace w @ replicate (Suc k) (GhRunView rid) \<rparr>)"
  using assms
proof (induction k arbitrary: w)
  case 0
  then show ?case by (subst pollStatus_step) (simp add: issue_def)
next
  case (Suc k)
  let ?w1 = "issue (GhRunView rid) w"
  have n: "now ?w1 = Suc (now w)" by (simp add: issue_def now_def)
  from Suc.prems(2) have first: "\<not> completedAt e (now w)" by force
  have c: "completedAt e (now ?w1 + k)" using Suc.prems(1) n by simp
  have "\<forall>j < k. \<not> completedAt e (now ?w1 + j)"
  proof (intro allI impI)
    fix j assume "j < k"
    then have "Suc j < Suc k" by simp
    with Suc.prems(2) have "\<not> completedAt e (now w + Suc j)" by blast
    with n show "\<not> completedAt e (now ?w1 + j)" by simp
  qed
  from Suc.IH[OF c this] have
    "pollStatus e rid ?w1 =
       Some (the (runStatusOf e (now ?w1 + k)),
             ?w1 \<lparr> trace := trace ?w1 @ replicate (Suc k) (GhRunView rid) \<rparr>)" .
  moreover have "?w1 \<lparr> trace := trace ?w1 @ replicate (Suc k) (GhRunView rid) \<rparr>
                 = w \<lparr> trace := trace w @ replicate (Suc (Suc k)) (GhRunView rid) \<rparr>"
    by (simp add: issue_def)
  moreover have "now ?w1 + k = now w + Suc k" using n by simp
  ultimately show ?case using first by (subst pollStatus_step) simp
qed

lemma pollStatus_iff:
  "pollStatus e rid w = Some (r, w') \<longleftrightarrow>
     (\<exists>k. (\<forall>j < k. \<not> completedAt e (now w + j)) \<and>
          runStatusOf e (now w + k) = Some r \<and> status r = ''completed'' \<and>
          w' = w \<lparr> trace := trace w @ replicate (Suc k) (GhRunView rid) \<rparr>)"
proof
  assume "pollStatus e rid w = Some (r, w')"
  from pollStatus_Some[OF this] obtain n where
    n: "trace w' = trace w @ replicate (Suc n) (GhRunView rid)" "remote w' = remote w"
       "runStatusOf e (now w + n) = Some r" "status r = ''completed''"
       "\<forall>k < n. \<not> completedAt e (now w + k)" by auto
  from n(1,2) have "w' = w \<lparr> trace := trace w @ replicate (Suc n) (GhRunView rid) \<rparr>"
    by (intro world.equality) simp_all
  with n(3,4,5) show "\<exists>k. (\<forall>j < k. \<not> completedAt e (now w + j)) \<and>
          runStatusOf e (now w + k) = Some r \<and> status r = ''completed'' \<and>
          w' = w \<lparr> trace := trace w @ replicate (Suc k) (GhRunView rid) \<rparr>" by blast
next
  assume "\<exists>k. (\<forall>j < k. \<not> completedAt e (now w + j)) \<and>
          runStatusOf e (now w + k) = Some r \<and> status r = ''completed'' \<and>
          w' = w \<lparr> trace := trace w @ replicate (Suc k) (GhRunView rid) \<rparr>"
  then obtain k where k: "\<forall>j < k. \<not> completedAt e (now w + j)"
    "runStatusOf e (now w + k) = Some r" "status r = ''completed''"
    "w' = w \<lparr> trace := trace w @ replicate (Suc k) (GhRunView rid) \<rparr>" by blast
  from k(2,3) have "completedAt e (now w + k)" by (simp add: completedAt_def)
  from pollStatus_first_completed[OF this k(1), of rid] k(2,4)
  show "pollStatus e rid w = Some (r, w')" by simp
qed

lemma pollStatus_None_iff:
  "pollStatus e rid w = None \<longleftrightarrow> (\<forall>m \<ge> now w. \<not> completedAt e m)"
proof
  assume none: "pollStatus e rid w = None"
  show "\<forall>m \<ge> now w. \<not> completedAt e m"
  proof (intro allI impI notI)
    fix m assume "now w \<le> m" "completedAt e m"
    from pollStatus_returns[OF this, of rid] none show False by simp
  qed
next
  assume "\<forall>m \<ge> now w. \<not> completedAt e m"
  then show "pollStatus e rid w = None" by (rule pollStatus_never)
qed

lemma deploy_attempt:
  assumes "preflight e w = (None, w1)" and "attempt \<le> MAX_ATTEMPTS"
    and "startRun e w1 = (Some rid, w2)" and "rid \<noteq> 0"
    and "pollStatus e rid w2 = Some (r, w3)"
  shows "deploy e attempt w =
        (if conclusion r = ''success'' then Some (Returned True, w3)
         else if fst (recover e rid w3) then deploy e (attempt + 1) (snd (recover e rid w3))
         else Some (Returned False, snd (recover e rid w3)))"
  using assms by (subst deploy.simps) (simp split: prod.splits)

lemma deploy_success:
  assumes "preflight e w = (None, w1)" and "attempt \<le> MAX_ATTEMPTS"
    and "startRun e w1 = (Some rid, w2)" and "rid \<noteq> 0"
    and "\<forall>j < k. \<not> completedAt e (now w2 + j)"
    and "runStatusOf e (now w2 + k) = Some r" and "status r = ''completed''"
    and "conclusion r = ''success''"
  shows "deploy e attempt w =
           Some (Returned True, w2 \<lparr> trace := trace w2 @ replicate (Suc k) (GhRunView rid) \<rparr>)"
proof -
  have "pollStatus e rid w2 =
          Some (r, w2 \<lparr> trace := trace w2 @ replicate (Suc k) (GhRunView rid) \<rparr>)"
    unfolding pollStatus_iff using assms(5,6,7) by blast
  from deploy_attempt[OF assms(1,2,3,4) this] assms(8) show ?thesis by simp
qed

text \<open>
  Claim C7. The polling loop asks for the status of the run again and again: after an
  answer that is missing or whose status is not \<open>completed\<close> it asks once more, and it
  ends at the first answer whose status is \<open>completed\<close>, which it returns; where no
  such answer ever comes it does not end. The conclusion of an answer with another status
  is never read: two environments that differ only in such conclusions give the same run.
  A run of \<open>deploy\<close> returns true exactly when its last action is a status query
  answered \<open>completed\<close> with the conclusion \<open>success\<close>. In an attempt whose polling
  loop ends, \<open>deploy\<close> returns true at once when the conclusion is \<open>success\<close>;
  otherwise it retries when \<open>autoFix\<close> has pushed a fix and returns false when it has
  not. So an attempt whose run completes with \<open>success\<close> after any number of other
  answers returns true, right after the query that was answered so.
\<close>

theorem deploy_reads_conclusion_when_completed:
  "(\<forall>r w'. pollStatus e runId w = Some (r, w') \<longleftrightarrow>
      (\<exists>k. (\<forall>j < k. \<not> completedAt e (now w + j)) \<and>
           runStatusOf e (now w + k) = Some r \<and> status r = ''completed'' \<and>
           w' = w \<lparr> trace := trace w @ replicate (Suc k) (GhRunView runId) \<rparr>)) \<and>
   (pollStatus e runId w = None \<longleftrightarrow> (\<forall>m \<ge> now w. \<not> completedAt e m)) \<and>
   (differOnlyInPendingConclusions e e' \<longrightarrow> deploy e' attempt w = deploy e attempt w) \<and>
   (\<forall>out w'. deploy e attempt w = Some (out, w') \<longrightarrow>
      (out = Returned True \<longleftrightarrow> lastPollSucceeded e w')) \<and>
   (\<forall>w1 rid w2 r w3.
      preflight e w = (None, w1) \<and> attempt \<le> MAX_ATTEMPTS \<and>
      startRun e w1 = (Some rid, w2) \<and> rid \<noteq> 0 \<and> pollStatus e rid w2 = Some (r, w3) \<longrightarrow>
      deploy e attempt w =
        (if conclusion r = ''success'' then Some (Returned True, w3)
         else if fst (recover e rid w3) then deploy e (attempt + 1) (snd (recover e rid w3))
         else Some (Returned False, snd (recover e rid w3)))) \<and>
   (\<forall>w1 rid w2 k r.
      preflight e w = (None, w1) \<and> attempt \<le> MAX_ATTEMPTS \<and>
      startRun e w1 = (Some rid, w2) \<and> rid \<noteq> 0 \<and>
      (\<forall>j < k. \<not> completedAt e (now w2 + j)) \<and>
      runStatusOf e (now w2 + k) = Some r \<and> status r = ''completed'' \<and>
      conclusion r = ''success'' \<longrightarrow>
      deploy e attempt w =
        Some (Returned True, w2 \<lparr> trace := trace w2 @ replicate (Suc k) (GhRunView rid) \<rparr>))"
proof (intro conjI)
  show "\<forall>r w'. pollStatus e runId w = Some (r, w') \<longleftrightarrow>
      (\<exists>k. (\<forall>j < k. \<not> completedAt e (now w + j)) \<and>
           runStatusOf e (now w + k) = Some r \<and> status r = ''completed'' \<and>
           w' = w \<lparr> trace := trace w @ replicate (Suc k) (GhRunView runId) \<rparr>)"
    by (intro allI) (rule pollStatus_iff)
  show "pollStatus e runId w = None \<longleftrightarrow> (\<forall>m \<ge> now w. \<not> completedAt e m)"
    by (rule pollStatus_None_iff)
  show "differOnlyInPendingConclusions e e' \<longrightarrow> deploy e' attempt w = deploy e attempt w"
    using deploy_blind by blast
  show "\<forall>out w'. deploy e attempt w = Some (out, w') \<longrightarrow>
      (out = Returned True \<longleftrightarrow> lastPollSucceeded e w')"
    using deploy_true_iff by blast
  show "\<forall>w1 rid w2 r w3.
      preflight e w = (None, w1) \<and> attempt \<le> MAX_ATTEMPTS \<and>
      startRun e w1 = (Some rid, w2) \<and> rid \<noteq> 0 \<and> pollStatus e rid w2 = Some (r, w3) \<longrightarrow>
      deploy e attempt w =
        (if conclusion r = ''success'' then Some (Returned True, w3)
         else if fst (recover e rid w3) then deploy e (attempt + 1) (snd (recover e rid w3))
         else Some (Returned False, snd (recover e rid w3)))"
    by (intro allI impI, elim conjE) (rule deploy_attempt)
  show "\<forall>w1 rid w2 k r.
      preflight e w = (None, w1) \<and> attempt \<le> MAX_ATTEMPTS \<and>
      startRun e w1 = (Some rid, w2) \<and> rid \<noteq> 0 \<and>
      (\<forall>j < k. \<not> completedAt e (now w2 + j)) \<and>
      runStatusOf e (now w2 + k) = Some r \<and> status r = ''completed'' \<and>
      conclusion r = ''success'' \<longrightarrow>
      deploy e attempt w =
        Some (Returned True, w2 \<lparr> trace := trace w2 @ replicate (Suc k) (GhRunView rid) \<rparr>)"
    by (intro allI impI, elim conjE) (rule deploy_success)
qed

lemma differOnly_slowEnv: "differOnlyInPendingConclusions (slowEnv []) (slowEnv ''failure'')"
  by (simp add: differOnlyInPendingConclusions_def slowEnv_def exampleEnv_def
        agreeOnCompleted_def inProgress_def)

lemma slowEnv_polls:
  "\<forall>j < 2. \<not> completedAt (slowEnv c) (now afterStart + j)"
  "runStatusOf (slowEnv c) (now afterStart + 2) = Some completedSuccess"
  by (simp_all add: completedAt_def slowEnv_def exampleEnv_def inProgress_def afterStart_def
        now_def)

lemma afterThreePolls_eq:
  "afterStart \<lparr> trace := trace afterStart @ replicate (Suc 2) (GhRunView 7) \<rparr> = afterThreePolls"
  by (simp add: afterStart_def afterThreePolls_def numeral_eq_Suc)

theorem deploy_reads_conclusion_when_completed_witness:
  "differOnlyInPendingConclusions (slowEnv []) (slowEnv ''failure'') \<and>
   deploy (slowEnv ''failure'') 1 syncedWorld = deploy (slowEnv []) 1 syncedWorld \<and>
   deploy (slowEnv []) 1 syncedWorld = Some (Returned True, afterThreePolls) \<and>
   pollStatus (slowEnv []) 7 afterStart = Some (completedSuccess, afterThreePolls) \<and>
   lastPollSucceeded (slowEnv []) afterThreePolls \<and>
   pollStatus stuckEnv 7 afterStart = None \<and>
   deploy okEnv 1 syncedWorld = Some (Returned True, afterPoll) \<and>
   lastPollSucceeded okEnv afterPoll"
proof -
  note t = deploy_reads_conclusion_when_completed
  note s = t[of "slowEnv []" 7 afterStart "slowEnv ''failure''" 1]
  note d = t[of "slowEnv []" 7 syncedWorld "slowEnv ''failure''" 1]
  have c: "status completedSuccess = ''completed''" "conclusion completedSuccess = ''success''"
    by (simp_all add: completedSuccess_def)
  have 1: "deploy (slowEnv ''failure'') 1 syncedWorld = deploy (slowEnv []) 1 syncedWorld"
    using d differOnly_slowEnv by blast
  have pf: "preflight (slowEnv []) syncedWorld = (None, afterPreflight)"
    unfolding slowEnv_def by (rule preflight_example)
  have sr: "startRun (slowEnv []) afterPreflight = (Some 7, afterStart)"
    unfolding slowEnv_def by (rule startRun_example)
  have le: "(1::nat) \<le> MAX_ATTEMPTS" "(7::nat) \<noteq> 0" by (simp_all add: MAX_ATTEMPTS_def)
  from d pf sr le slowEnv_polls[of "[]"] c
  have "deploy (slowEnv []) 1 syncedWorld =
          Some (Returned True,
                afterStart \<lparr> trace := trace afterStart @ replicate (Suc 2) (GhRunView 7) \<rparr>)"
    by blast
  then have 2: "deploy (slowEnv []) 1 syncedWorld = Some (Returned True, afterThreePolls)"
    by (simp only: afterThreePolls_eq)
  from s slowEnv_polls[of "[]"] c
  have "pollStatus (slowEnv []) 7 afterStart =
          Some (completedSuccess,
                afterStart \<lparr> trace := trace afterStart @ replicate (Suc 2) (GhRunView 7) \<rparr>)"
    by blast
  then have 3: "pollStatus (slowEnv []) 7 afterStart = Some (completedSuccess, afterThreePolls)"
    by (simp only: afterThreePolls_eq)
  from d 2 have 4: "lastPollSucceeded (slowEnv []) afterThreePolls" by blast
  from t[of stuckEnv 7 afterStart stuckEnv 1] never_completes_stuckEnv
  have 5: "pollStatus stuckEnv 7 afterStart = None" by blast
  from t[of okEnv 7 syncedWorld okEnv 1] deploy_okEnv
  have 6: "lastPollSucceeded okEnv afterPoll" by blast
  from differOnly_slowEnv 1 2 3 4 5 6 deploy_okEnv show ?thesis by blast
qed


subsection \<open>The validation step and the sync\<close>

lemma buildTemplate_exampleLocal: "buildTemplate exampleLocal = bannerTemplate"
  by (simp add: buildTemplate_def mergeConditionalValues_def copyEntries_def assignEntry_def
        insertProp_def arrayIndex_def isDecimalDigit_def getProp_def exampleLocal_def
        bannerTemplate_def orEmpty_def)

lemma validateStep_emptyWorld: "validateStep okEnv emptyWorld = (Inr (), afterSync)"
  by (simp add: validateStep_def validateRemoteConfig_def getRemoteConfig_def
        getAccessToken_deploy_def syncRemoteConfig_def setRemoteConfig_def
        okEnv_def exampleEnv_def emptyWorld_def afterSync_def now_def issue_def
        diffRemoteConfig_def paramErrorsDeploy_def conditionErrorsDeploy_def
        exampleLocal_def orEmpty_def)

lemma validateRemoteConfig_emptyWorld:
  "\<exists>errs. errs \<noteq> [] \<and>
     validateRemoteConfig okEnv emptyWorld =
       (Inr errs, \<lparr> trace = [FirebasePrintAccessToken, HttpGetRemoteConfig],
                    remote = remote emptyWorld \<rparr>)"
  by (simp add: validateRemoteConfig_def getRemoteConfig_def getAccessToken_deploy_def
        okEnv_def exampleEnv_def emptyWorld_def now_def issue_def
        diffRemoteConfig_def paramErrorsDeploy_def conditionErrorsDeploy_def
        exampleLocal_def orEmpty_def)

lemma nothingToSync_example: "nothingToSync okEnv syncedWorld"
  by (simp add: nothingToSync_def okEnv_def exampleEnv_def syncedWorld_def diff_example_in_sync)


lemma validateStep_in_sync:
  assumes v: "validateRemoteConfig e w = (Inr [], w1)"
  shows "validateStep e w = (Inr (), w1) \<and> remote w1 = remote w \<and>
      (\<forall>c \<in> set (newCommands w w1). \<not> isPut c)"
proof -
  from validateRemoteConfig_result[OF v]
  have "grows (\<lambda>c. c = FirebasePrintAccessToken \<or> c = HttpGetRemoteConfig) w w1" by blast
  then have g: "grows (\<lambda>c. \<not> isPut c) w w1"
    by (rule grows_weaken) (auto simp: isPut_def)
  then have "remote w1 = remote w" by (auto simp: grows_def)
  with validateStep_no_errors[OF v] grows_newCommands[OF g]
  show ?thesis by blast
qed

lemma deploy_in_sync:
  assumes "nothingToSync e w" and "deploy e attempt w = Some (out, w')"
  shows "remote w' = remote w \<and> (\<forall>c \<in> set (newCommands w w'). \<not> isPut c)"
proof -
  from deploy_no_put[OF assms(2,1)] have g: "grows (\<lambda>c. \<not> isPut c) w w'" .
  then have "remote w' = remote w" by (auto simp: grows_def)
  with grows_newCommands[OF g] show ?thesis by blast
qed

lemma validateStep_syncs:
  assumes v: "validateRemoteConfig e w = (Inr errs, w1)" and ne: "errs \<noteq> []"
  shows "validateStep e w = syncRemoteConfig e w1 \<and>
      (\<exists>l. localFile e = Some l \<and>
         (\<forall>c \<in> set (newCommands w1 (snd (syncRemoteConfig e w1))).
            isPut c \<longrightarrow> c = HttpPutRemoteConfig (buildTemplate l)) \<and>
         (fst (syncRemoteConfig e w1) = Inr () \<longrightarrow>
            newCommands w1 (snd (syncRemoteConfig e w1))
              = [FirebasePrintAccessToken, HttpPutRemoteConfig (buildTemplate l)] \<and>
            remote (snd (syncRemoteConfig e w1)) = buildTemplate l))"
proof -
  from validateRemoteConfig_result[OF v] obtain l where l: "localFile e = Some l" by blast
  obtain r w2 where s: "syncRemoteConfig e w1 = (r, w2)" by (cases "syncRemoteConfig e w1")
  from syncRemoteConfig_result[OF s] obtain cs where
    cs: "trace w2 = trace w1 @ cs"
      "\<forall>c \<in> set cs. isPut c \<longrightarrow>
         (\<exists>l. localFile e = Some l \<and> c = HttpPutRemoteConfig (buildTemplate l))"
    by blast
  from syncRemoteConfig_result[OF s] l have ok: "r = Inr () \<longrightarrow>
      trace w2 = trace w1 @ [FirebasePrintAccessToken, HttpPutRemoteConfig (buildTemplate l)] \<and>
      remote w2 = buildTemplate l"
    by auto
  from cs(1) have nc: "newCommands w1 w2 = cs" by (simp add: newCommands_def)
  have p: "\<forall>c \<in> set cs. isPut c \<longrightarrow> c = HttpPutRemoteConfig (buildTemplate l)"
  proof (intro ballI impI)
    fix c assume "c \<in> set cs" "isPut c"
    with cs(2) obtain l' where "localFile e = Some l'" "c = HttpPutRemoteConfig (buildTemplate l')"
      by blast
    with l show "c = HttpPutRemoteConfig (buildTemplate l)" by simp
  qed
  from ok have ok': "r = Inr () \<longrightarrow>
      newCommands w1 w2 = [FirebasePrintAccessToken, HttpPutRemoteConfig (buildTemplate l)] \<and>
      remote w2 = buildTemplate l"
    by (simp add: newCommands_def)
  have "validateStep e w = syncRemoteConfig e w1" by (rule validateStep_errors[OF v ne])
  moreover have "localFile e = Some l \<and>
         (\<forall>c \<in> set (newCommands w1 (snd (syncRemoteConfig e w1))).
            isPut c \<longrightarrow> c = HttpPutRemoteConfig (buildTemplate l)) \<and>
         (fst (syncRemoteConfig e w1) = Inr () \<longrightarrow>
            newCommands w1 (snd (syncRemoteConfig e w1))
              = [FirebasePrintAccessToken, HttpPutRemoteConfig (buildTemplate l)] \<and>
            remote (snd (syncRemoteConfig e w1)) = buildTemplate l)"
    unfolding s fst_conv snd_conv nc using l p ok'[unfolded nc] by blast
  ultimately show ?thesis by blast
qed

text \<open>
  A run of \<open>deploy\<close> that returns has run its checks first: its trace extends the trace
  of the checks. When the GitHub CLI is there, the branch is \<open>main\<close> or
  \<open>master\<close>, and the validation finds errors, the checks end with
  \<open>syncRemoteConfig\<close>, so the run contains the sync.
\<close>

lemma counted_extends: "counted k w w' \<Longrightarrow> \<exists>cs. trace w' = trace w @ cs"
  by (auto simp: counted_def)

lemma extends_trans:
  "\<exists>cs. trace w1 = trace w @ cs \<Longrightarrow> \<exists>cs. trace w2 = trace w1 @ cs \<Longrightarrow>
   \<exists>cs. trace w2 = trace w @ cs"
  by auto

lemma deploy_extends_preflight:
  assumes "deploy e attempt w = Some (out, w')"
  shows "\<exists>cs. trace w' = trace (snd (preflight e w)) @ cs"
  using assms
proof (induction rule: deploy_run_induct)
  case (early attempt w out w')
  then show ?case by simp
next
  case (budget attempt w w')
  then show ?case by simp
next
  case (norun attempt w w1 runId w')
  from counted_extends[OF startRun_counted[OF norun(3)]] norun(1) show ?case by simp
next
  case (success attempt w w1 rid w2 r w')
  from extends_trans[OF counted_extends[OF startRun_counted[OF success(3)]]
        counted_extends[OF pollStatus_counted[OF success(5)]]] success(1)
  show ?case by simp
next
  case (giveup attempt w w1 rid w2 r w3 w')
  from extends_trans[OF extends_trans[OF counted_extends[OF startRun_counted[OF giveup(3)]]
        counted_extends[OF pollStatus_counted[OF giveup(5)]]]
        counted_extends[OF recover_counted[OF giveup(7)]]] giveup(1)
  show ?case by simp
next
  case (retry attempt w w1 rid w2 r w3 w4 out w')
  from extends_trans[OF extends_trans[OF counted_extends[OF startRun_counted[OF retry(3)]]
        counted_extends[OF pollStatus_counted[OF retry(5)]]]
        counted_extends[OF recover_counted[OF retry(7)]]]
  have a: "\<exists>cs. trace w4 = trace w1 @ cs" .
  obtain p w5 where pf: "preflight e w4 = (p, w5)" by (cases "preflight e w4")
  from counted_extends[OF preflight_counted[OF pf]] have b: "\<exists>cs. trace w5 = trace w4 @ cs" .
  from retry.IH pf have c: "\<exists>cs. trace w' = trace w5 @ cs" by simp
  from extends_trans[OF extends_trans[OF a b] c] retry(1) show ?case by simp
qed

lemma preflight_syncs:
  assumes "exitsOk e (now w)"
    and "trim (stdoutOf e (Suc (now w))) = ''main'' \<or> trim (stdoutOf e (Suc (now w))) = ''master''"
    and "validateRemoteConfig e (issue GitBranchShowCurrent (issue GhVersion w)) = (Inr errs, w1)"
    and "errs \<noteq> []"
  shows "snd (preflight e w) = snd (syncRemoteConfig e w1)"
  using assms(1,2) validateStep_errors[OF assms(3,4)]
  by (auto simp: preflight_def checkGhInstalled_def run_def now_issue Let_def
           split: prod.splits sum.splits)

lemma deploy_syncs_on_errors:
  assumes "deploy e attempt w = Some (out, w')"
    and "exitsOk e (now w)"
    and "trim (stdoutOf e (Suc (now w))) = ''main'' \<or> trim (stdoutOf e (Suc (now w))) = ''master''"
    and "validateRemoteConfig e (issue GitBranchShowCurrent (issue GhVersion w)) = (Inr errs, w1)"
    and "errs \<noteq> []"
  shows "\<exists>cs. trace w' = trace (snd (syncRemoteConfig e w1)) @ cs"
  using deploy_extends_preflight[OF assms(1)] preflight_syncs[OF assms(2,3,4,5)] by simp

text \<open>
  The templates of the two files. For the ordinary name the parameter is created with the
  default \<open>control\<close> and receives the conditional values; for \<open>hasOwnProperty\<close>
  the template is the one of the example file: no parameter is created, and the
  conditional values of the file are not part of what is published.
\<close>

lemma buildTemplate_ordinaryKeyFile:
  "buildTemplate ordinaryKeyFile =
     bannerTemplate \<lparr> parameters :=
       Some [(''navigation_banner'',
               \<lparr> defaultValue = Some (Some ''control''),
                 paramConditionalValues = Some [(''beta_users'', Some ''beta'')] \<rparr>),
             (''new_editor'',
               \<lparr> defaultValue = Some (Some ''control''),
                 paramConditionalValues = Some [(''beta_users'', Some ''beta'')] \<rparr>)] \<rparr>"
  by (simp add: buildTemplate_def mergeConditionalValues_def copyEntries_def assignEntry_def
        insertProp_def arrayIndex_def isDecimalDigit_def getProp_def objectPrototypeKeys_def
        controlParameter_def ordinaryKeyFile_def exampleLocal_def bannerTemplate_def orEmpty_def)

lemma buildTemplate_inheritedKeyFile: "buildTemplate inheritedKeyFile = bannerTemplate"
  by (simp add: buildTemplate_def mergeConditionalValues_def copyEntries_def assignEntry_def
        insertProp_def arrayIndex_def isDecimalDigit_def getProp_def objectPrototypeKeys_def
        inheritedKeyFile_def exampleLocal_def bannerTemplate_def orEmpty_def)

lemma diff_inheritedKeyFile:
  "diffRemoteConfig inheritedKeyFile (remote emptyWorld) =
     [msgMissingParam ''navigation_banner'', msgMissingCondition ''beta_users'']"
  by (simp add: diffRemoteConfig_def paramErrorsDeploy_def conditionErrorsDeploy_def
        getProp_def objectPrototypeKeys_def truthyParameter_def inheritedKeyFile_def
        exampleLocal_def emptyWorld_def orEmpty_def)

lemma preflight_inheritedKeyEnv:
  "preflight inheritedKeyEnv emptyWorld = (None, afterInheritedKeySync)"
  by (simp add: preflight_def checkGhInstalled_def run_def validateStep_def
        validateRemoteConfig_def getRemoteConfig_def getAccessToken_deploy_def
        syncRemoteConfig_def setRemoteConfig_def inheritedKeyEnv_def afterInheritedKeySync_def
        now_def issue_def trim_examples diff_inheritedKeyFile[unfolded emptyWorld_def, simplified]
        buildTemplate_inheritedKeyFile emptyWorld_def)

lemma startRun_inheritedKeyEnv:
  "startRun inheritedKeyEnv afterInheritedKeySync = (Some 7, afterInheritedKeyStart)"
  by (simp add: startRun_def getLatestRunId_def truthySha_def run_def inheritedKeyEnv_def
        afterInheritedKeySync_def afterInheritedKeyStart_def now_def issue_def trim_examples
        noRunId_def numeral_eq_Suc)

lemma pollStatus_inheritedKeyEnv:
  "pollStatus inheritedKeyEnv 7 afterInheritedKeyStart
     = Some (completedSuccess, afterInheritedKeyDeploy)"
  by (subst pollStatus_step)
     (simp add: completedAt_def inheritedKeyEnv_def completedSuccess_def
        afterInheritedKeyStart_def afterInheritedKeyDeploy_def now_def issue_def)

lemma deploy_inheritedKeyEnv:
  "deploy inheritedKeyEnv 1 emptyWorld = Some (Returned True, afterInheritedKeyDeploy)"
  using preflight_inheritedKeyEnv startRun_inheritedKeyEnv pollStatus_inheritedKeyEnv
  by (subst deploy.simps) (simp add: MAX_ATTEMPTS_def completedSuccess_def)

text \<open>
  Claim C6 fails on the code. The local file lists conditional values for a parameter
  \<open>hasOwnProperty\<close> that it does not define. \<open>deploy\<close> finds the live template
  out of date and calls \<open>syncRemoteConfig\<close>, but the template it publishes has no
  parameter of that name: \<open>template.parameters[paramKey]\<close> reads the member of
  \<open>Object.prototype\<close>, so the missing parameter is not created and the conditional
  values are lost. For the same file with an ordinary name in that place, the parameter
  is created with the default \<open>control\<close> and holds the conditional values.
\<close>

theorem syncRemoteConfig_drops_inherited_name:
  "deploy inheritedKeyEnv 1 emptyWorld = Some (Returned True, afterInheritedKeyDeploy) \<and>
   filter isPut (trace afterInheritedKeyDeploy) = [HttpPutRemoteConfig (buildTemplate inheritedKeyFile)] \<and>
   remote afterInheritedKeyDeploy = buildTemplate inheritedKeyFile \<and>
   map_of (orEmpty (conditionalValues inheritedKeyFile)) ''hasOwnProperty''
     = Some [(''beta_users'', Some ''beta'')] \<and>
   map_of (orEmpty (parameters inheritedKeyFile)) ''hasOwnProperty'' = None \<and>
   map_of (orEmpty (parameters (buildTemplate inheritedKeyFile))) ''hasOwnProperty'' = None \<and>
   map_of (orEmpty (parameters (buildTemplate ordinaryKeyFile))) ''new_editor''
     = Some \<lparr> defaultValue = Some (Some ''control''),
              paramConditionalValues = Some [(''beta_users'', Some ''beta'')] \<rparr>"
proof -
  have "filter isPut (trace afterInheritedKeyDeploy) = [HttpPutRemoteConfig bannerTemplate]"
    by (simp add: afterInheritedKeyDeploy_def isPut_def)
  moreover have "remote afterInheritedKeyDeploy = bannerTemplate"
    by (simp add: afterInheritedKeyDeploy_def)
  moreover have "map_of (orEmpty (conditionalValues inheritedKeyFile)) ''hasOwnProperty''
     = Some [(''beta_users'', Some ''beta'')]"
    "map_of (orEmpty (parameters inheritedKeyFile)) ''hasOwnProperty'' = None"
    by (simp_all add: inheritedKeyFile_def exampleLocal_def orEmpty_def)
  moreover have "map_of (orEmpty (parameters bannerTemplate)) ''hasOwnProperty'' = None"
    by (simp add: bannerTemplate_def orEmpty_def)
  moreover have "map_of (orEmpty (parameters (buildTemplate ordinaryKeyFile))) ''new_editor''
     = Some \<lparr> defaultValue = Some (Some ''control''),
              paramConditionalValues = Some [(''beta_users'', Some ''beta'')] \<rparr>"
    by (simp add: buildTemplate_ordinaryKeyFile orEmpty_def)
  ultimately show ?thesis
    using deploy_inheritedKeyEnv by (simp add: buildTemplate_inheritedKeyFile)
qed


subsection \<open>The access token\<close>

text \<open>
  Claim C10. The \<open>getAccessToken\<close> of the deploy script runs
  \<open>firebase auth:print-access-token\<close> exactly once in every case, also when
  \<open>FIREBASE_TOKEN\<close> is set. When the CLI succeeds the result is its output, trimmed;
  when it fails and \<open>FIREBASE_TOKEN\<close> is set (present and not empty) the result is the
  value of the variable; the function throws exactly when the variable is not set and the
  CLI fails. The \<open>getAccessToken\<close> of the standalone validator has the opposite
  precedence: with the variable set it returns the variable and runs no command, and
  without it the two functions coincide.
\<close>

theorem getAccessToken_deploy_prefers_cli:
  "snd (getAccessToken_deploy e w) = issue FirebasePrintAccessToken w \<and>
   newCommands w (snd (getAccessToken_deploy e w)) = [FirebasePrintAccessToken] \<and>
   (exitsOk e (now w) \<longrightarrow>
      fst (getAccessToken_deploy e w) = Inr (trim (stdoutOf e (now w)))) \<and>
   (\<forall>token. \<not> exitsOk e (now w) \<and> firebaseToken e = Some token \<and> token \<noteq> [] \<longrightarrow>
      fst (getAccessToken_deploy e w) = Inr token) \<and>
   (\<forall>err. fst (getAccessToken_deploy e w) = Inl err \<longleftrightarrow>
      err = TokenUnavailable \<and> \<not> tokenSet e \<and> \<not> exitsOk e (now w)) \<and>
   (\<forall>token. firebaseToken e = Some token \<and> token \<noteq> [] \<longrightarrow>
      getAccessToken_validate e w = (Inr token, w)) \<and>
   (\<not> tokenSet e \<longrightarrow> getAccessToken_validate e w = getAccessToken_deploy e w)"
proof (intro conjI)
  show "snd (getAccessToken_deploy e w) = issue FirebasePrintAccessToken w"
    by (simp add: getAccessToken_deploy_cases)
  show "newCommands w (snd (getAccessToken_deploy e w)) = [FirebasePrintAccessToken]"
    by (simp add: getAccessToken_deploy_cases newCommands_def issue_def)
  show "exitsOk e (now w) \<longrightarrow>
      fst (getAccessToken_deploy e w) = Inr (trim (stdoutOf e (now w)))"
    by (simp add: getAccessToken_deploy_cases)
  show "\<forall>token. \<not> exitsOk e (now w) \<and> firebaseToken e = Some token \<and> token \<noteq> [] \<longrightarrow>
      fst (getAccessToken_deploy e w) = Inr token"
    by (simp add: getAccessToken_deploy_cases)
  show "\<forall>err. fst (getAccessToken_deploy e w) = Inl err \<longleftrightarrow>
      err = TokenUnavailable \<and> \<not> tokenSet e \<and> \<not> exitsOk e (now w)"
    by (auto simp add: getAccessToken_deploy_cases tokenSet_def split: option.splits)
  show "\<forall>token. firebaseToken e = Some token \<and> token \<noteq> [] \<longrightarrow>
      getAccessToken_validate e w = (Inr token, w)"
    by (simp add: getAccessToken_validate_def)
  show "\<not> tokenSet e \<longrightarrow> getAccessToken_validate e w = getAccessToken_deploy e w"
    by (simp add: getAccessToken_validate_def getAccessToken_deploy_def tokenSet_def
             split: option.splits)
qed

lemma trim_cli_token: "trim ('' ya29.cli-token'' @ [CHR 0x0A]) = ''ya29.cli-token''"
  by (simp add: trim_def isSpace_def)

lemma ciEnv_fields:
  "firebaseToken ciEnv = Some ''ci-token''" "exitsOk ciEnv n = False" "tokenSet ciEnv"
  by (simp_all add: ciEnv_def tokenSet_def)

lemma cliEnv_fields:
  "firebaseToken cliEnv = Some ''ci-token''" "exitsOk cliEnv n = True"
  "stdoutOf cliEnv n = '' ya29.cli-token'' @ [CHR 0x0A]" "tokenSet cliEnv"
  by (simp_all add: cliEnv_def ciEnv_def tokenSet_def)

theorem getAccessToken_deploy_prefers_cli_witness:
  "getAccessToken_deploy cliEnv emptyWorld
     = (Inr ''ya29.cli-token'', issue FirebasePrintAccessToken emptyWorld) \<and>
   getAccessToken_validate cliEnv emptyWorld = (Inr ''ci-token'', emptyWorld) \<and>
   getAccessToken_deploy ciEnv emptyWorld
     = (Inr ''ci-token'', issue FirebasePrintAccessToken emptyWorld) \<and>
   getAccessToken_validate ciEnv emptyWorld = (Inr ''ci-token'', emptyWorld) \<and>
   \<not> tokenSet (ciEnv \<lparr> firebaseToken := Some [] \<rparr>) \<and>
   getAccessToken_deploy (ciEnv \<lparr> firebaseToken := Some [] \<rparr>) emptyWorld
     = (Inl TokenUnavailable, issue FirebasePrintAccessToken emptyWorld) \<and>
   getAccessToken_validate (ciEnv \<lparr> firebaseToken := None \<rparr>) emptyWorld
     = (Inl TokenUnavailable, issue FirebasePrintAccessToken emptyWorld)"
proof -
  note a = getAccessToken_deploy_prefers_cli[of cliEnv emptyWorld]
  note b = getAccessToken_deploy_prefers_cli[of ciEnv emptyWorld]
  note c = getAccessToken_deploy_prefers_cli[of "ciEnv \<lparr> firebaseToken := Some [] \<rparr>" emptyWorld]
  note d = getAccessToken_deploy_prefers_cli[of "ciEnv \<lparr> firebaseToken := None \<rparr>" emptyWorld]
  have 1: "getAccessToken_deploy cliEnv emptyWorld
     = (Inr ''ya29.cli-token'', issue FirebasePrintAccessToken emptyWorld)"
    using a trim_cli_token by (simp add: cliEnv_fields prod_eq_iff)
  have 2: "getAccessToken_validate cliEnv emptyWorld = (Inr ''ci-token'', emptyWorld)"
    using a by (simp add: cliEnv_fields)
  have 3: "getAccessToken_deploy ciEnv emptyWorld
     = (Inr ''ci-token'', issue FirebasePrintAccessToken emptyWorld)"
    using b by (simp add: ciEnv_fields prod_eq_iff)
  have 4: "getAccessToken_validate ciEnv emptyWorld = (Inr ''ci-token'', emptyWorld)"
    using b by (simp add: ciEnv_fields)
  have 5: "\<not> tokenSet (ciEnv \<lparr> firebaseToken := Some [] \<rparr>)"
    by (simp add: tokenSet_def)
  have n6: "exitsOk (ciEnv \<lparr> firebaseToken := Some [] \<rparr>) (now emptyWorld) = False"
    by (simp add: ciEnv_def)
  have 6: "getAccessToken_deploy (ciEnv \<lparr> firebaseToken := Some [] \<rparr>) emptyWorld
     = (Inl TokenUnavailable, issue FirebasePrintAccessToken emptyWorld)"
    using c 5 n6 by (simp add: prod_eq_iff)
  have n7: "\<not> tokenSet (ciEnv \<lparr> firebaseToken := None \<rparr>)"
    "exitsOk (ciEnv \<lparr> firebaseToken := None \<rparr>) (now emptyWorld) = False"
    by (simp_all add: tokenSet_def ciEnv_def)
  have 7: "getAccessToken_validate (ciEnv \<lparr> firebaseToken := None \<rparr>) emptyWorld
     = (Inl TokenUnavailable, issue FirebasePrintAccessToken emptyWorld)"
    using d n7 by (simp add: prod_eq_iff)
  show ?thesis using 1 2 3 4 5 6 7 by simp
qed

end
